theory Spec2Isabelle
  imports Complex_Main "HOL-Library.Word" "HOL-Library.Multiset"
begin

unbundle bit_operations_syntax

section \<open>Values of the JavaScript runtime\<close>

text \<open>
  A \<^verbatim>\<open>Buffer\<close> is a list of bytes. A JavaScript string is a sequence of 16-bit code
  units. A \<^verbatim>\<open>number\<close> that holds an integer, and a \<^verbatim>\<open>bigint\<close>, are an \<open>int\<close>.
  The codecs return \<^verbatim>\<open>string | Buffer\<close>, which is the type \<open>jstext\<close>.
\<close>

type_synonym byte = "8 word"
type_synonym bytes = "byte list"
type_synonym jsstring = "16 word list"

datatype jstext = Str jsstring | Buf bytes

text \<open>
  The parts of the runtime that the repository calls and does not define: the text codecs
  behind \<^verbatim>\<open>Buffer.toString(encoding)\<close> and \<^verbatim>\<open>Buffer.from(string, encoding)\<close>, and
  \<^verbatim>\<open>String.prototype.toLowerCase\<close>. They are parameters of the model; every theorem below
  holds for every choice of them unless it says otherwise.
\<close>

record jsrt =
  bufToString :: "string \<Rightarrow> bytes \<Rightarrow> jsstring"
  bufFromString :: "string \<Rightarrow> jsstring \<Rightarrow> bytes"
  strToLowerCase :: "jsstring \<Rightarrow> jsstring"

subsection \<open>exceptions.ts\<close>

text \<open>
  \<^verbatim>\<open>BufferExhaustedError extends BrokenMessageError extends Error\<close>. The message of a
  \<^verbatim>\<open>BrokenMessageError\<close> is kept as the place that raises it. \<open>TypeError\<close> and
  \<open>RangeError\<close> are the runtime's own errors; \<open>PlainError\<close> is \<^verbatim>\<open>new Error(msg)\<close>.
\<close>

datatype broken =
    PacketTooShort
  | InvalidPacketHeader bytes
  | KeepsSendingChallenge
  | InvalidResponseType int
  | InvalidInfoResponseType int

datatype error =
    BufferExhaustedError
  | BrokenMessageError broken
  | TypeError
  | RangeError
  | PlainError string

fun instanceofBrokenMessageError :: "error \<Rightarrow> bool" where
  "instanceofBrokenMessageError BufferExhaustedError = True"
| "instanceofBrokenMessageError (BrokenMessageError _) = True"
| "instanceofBrokenMessageError _ = False"

fun instanceofBufferExhaustedError :: "error \<Rightarrow> bool" where
  "instanceofBufferExhaustedError BufferExhaustedError = True"
| "instanceofBufferExhaustedError _ = False"

section \<open>byteio.ts: ByteReader\<close>

text \<open>
  The reader is a mutable object: every method takes the reader and returns the outcome
  together with the reader as the call leaves it, also when the call throws. Positions and
  sizes are natural numbers: the reader starts at 0 and the codecs ask for 1, 2, 4 or 8 bytes.
\<close>

record reader =
  buffer :: bytes
  position :: nat
  encoding :: "string option"
  littleEndian :: bool

type_synonym 'a rd = "reader \<Rightarrow> (error + 'a) \<times> reader"

definition ByteReader :: "bytes \<Rightarrow> bool \<Rightarrow> string option \<Rightarrow> reader" where
  "ByteReader buf le enc = \<lparr>buffer = buf, position = 0, encoding = enc, littleEndian = le\<rparr>"

definition returnR :: "'a \<Rightarrow> 'a rd" where
  "returnR v r = (Inr v, r)"

definition throwR :: "error \<Rightarrow> 'a rd" where
  "throwR e r = (Inl e, r)"

definition bindR :: "'a rd \<Rightarrow> ('a \<Rightarrow> 'b rd) \<Rightarrow> 'b rd" where
  "bindR m f r = (case m r of (Inl e, r') \<Rightarrow> (Inl e, r') | (Inr v, r') \<Rightarrow> f v r')"

text \<open>\<^verbatim>\<open>Buffer.subarray(start, end)\<close> for indices that are not negative: both are clamped.\<close>

definition subarray :: "nat \<Rightarrow> nat \<Rightarrow> bytes \<Rightarrow> bytes" where
  "subarray s e b = take (e - s) (drop s b)"

definition read :: "nat \<Rightarrow> bytes rd" where
  "read sz r =
     (if position r + sz > length (buffer r) then (Inl BufferExhaustedError, r)
      else (Inr (subarray (position r) (position r + sz) (buffer r)),
            r\<lparr>position := position r + sz\<rparr>))"

definition peek :: "nat option \<Rightarrow> reader \<Rightarrow> bytes" where
  "peek sz r =
     (let endPos = (case sz of Some n \<Rightarrow> min (position r + n) (length (buffer r))
                             | None \<Rightarrow> length (buffer r))
      in subarray (position r) endPos (buffer r))"

text \<open>
  Node's \<^verbatim>\<open>Buffer.readUIntLE\<close>, \<^verbatim>\<open>readUIntBE\<close>, \<^verbatim>\<open>readIntLE\<close> and \<^verbatim>\<open>readIntBE\<close> at offset 0,
  on the bytes that \<open>read\<close> returned (so never out of range): the unsigned value of the
  bytes, and its two's complement reading.
\<close>

fun uintLE :: "bytes \<Rightarrow> int" where
  "uintLE [] = 0"
| "uintLE (b # bs) = uint b + 256 * uintLE bs"

definition uintBE :: "bytes \<Rightarrow> int" where
  "uintBE bs = uintLE (rev bs)"

definition toSigned :: "nat \<Rightarrow> int \<Rightarrow> int" where
  "toSigned n v = (if v \<ge> 2 ^ (8 * n - 1) then v - 2 ^ (8 * n) else v)"

definition sintLE :: "bytes \<Rightarrow> int" where
  "sintLE bs = toSigned (length bs) (uintLE bs)"

definition sintBE :: "bytes \<Rightarrow> int" where
  "sintBE bs = toSigned (length bs) (uintBE bs)"

definition readInt8 :: "int rd" where
  "readInt8 = bindR (read 1) (\<lambda>data. returnR (sintLE data))"

definition readUint8 :: "int rd" where
  "readUint8 = bindR (read 1) (\<lambda>data. returnR (uintLE data))"

definition readInt16 :: "int rd" where
  "readInt16 r = bindR (read 2)
     (\<lambda>data. returnR (if littleEndian r then sintLE data else sintBE data)) r"

definition readUint16 :: "int rd" where
  "readUint16 r = bindR (read 2)
     (\<lambda>data. returnR (if littleEndian r then uintLE data else uintBE data)) r"

definition readInt32 :: "int rd" where
  "readInt32 r = bindR (read 4)
     (\<lambda>data. returnR (if littleEndian r then sintLE data else sintBE data)) r"

definition readUint32 :: "int rd" where
  "readUint32 r = bindR (read 4)
     (\<lambda>data. returnR (if littleEndian r then uintLE data else uintBE data)) r"

definition readInt64 :: "int rd" where
  "readInt64 r = bindR (read 8)
     (\<lambda>data. returnR (if littleEndian r then sintLE data else sintBE data)) r"

definition readUint64 :: "int rd" where
  "readUint64 r = bindR (read 8)
     (\<lambda>data. returnR (if littleEndian r then uintLE data else uintBE data)) r"

definition readBool :: "bool rd" where
  "readBool = bindR readInt8 (\<lambda>v. returnR (v \<noteq> 0))"

definition readChar :: "jsrt \<Rightarrow> jstext rd" where
  "readChar rt r = bindR (read 1)
     (\<lambda>data. returnR (case encoding r of Some enc \<Rightarrow> Str (bufToString rt enc data)
                                        | None \<Rightarrow> Buf data)) r"

text \<open>
  The \<^verbatim>\<open>do { ... } while (byte !== 0)\<close> loop of \<^verbatim>\<open>readCString\<close>, with the array \<^verbatim>\<open>bytes\<close> as
  accumulator. It ends because every round that goes on has moved the position forward.
\<close>

lemma readUint8_advances:
  "readUint8 r = (Inr v, r') \<Longrightarrow>
     length (buffer r') - position r' < length (buffer r) - position r"
  by (auto simp: readUint8_def bindR_def read_def returnR_def split: if_splits)

function readCString_loop :: "int list \<Rightarrow> (int list) rd" where
  "readCString_loop acc r =
     (case readUint8 r of
        (Inl e, r') \<Rightarrow> (Inl e, r')
      | (Inr byte, r') \<Rightarrow>
          if byte \<noteq> 0 then readCString_loop (acc @ [byte]) r' else (Inr acc, r'))"
  by pat_completeness auto
termination
  by (relation "measure (\<lambda>(acc, r). length (buffer r) - position r)")
     (auto dest: readUint8_advances [OF sym])

declare readCString_loop.simps [simp del]

text \<open>\<^verbatim>\<open>Buffer.from(array)\<close>: each number is stored modulo 256.\<close>

definition bufferFromArray :: "int list \<Rightarrow> bytes" where
  "bufferFromArray xs = map word_of_int xs"

definition readCString :: "jsrt \<Rightarrow> jstext rd" where
  "readCString rt r = bindR (readCString_loop [])
     (\<lambda>bs. let buf = bufferFromArray bs
           in returnR (case encoding r of Some enc \<Rightarrow> Str (bufToString rt enc buf)
                                        | None \<Rightarrow> Buf buf)) r"

section \<open>byteio.ts: ByteWriter\<close>

text \<open>
  The writer collects buffers. Node's \<^verbatim>\<open>Buffer.writeUInt*\<close> and \<^verbatim>\<open>writeInt*\<close> throw a
  \<open>RangeError\<close> for a value outside the width and store the two's complement bytes of any
  other; a write method that throws has not yet touched the writer.
\<close>

record writer =
  buffers :: "bytes list"
  w_encoding :: "string option"
  w_littleEndian :: bool

definition ByteWriter :: "bool \<Rightarrow> string option \<Rightarrow> writer" where
  "ByteWriter le enc = \<lparr>buffers = [], w_encoding = enc, w_littleEndian = le\<rparr>"

definition write_bytes :: "bytes \<Rightarrow> writer \<Rightarrow> writer" where
  "write_bytes data w = w\<lparr>buffers := buffers w @ [data]\<rparr>"

fun bytesLE :: "nat \<Rightarrow> int \<Rightarrow> bytes" where
  "bytesLE 0 v = []"
| "bytesLE (Suc n) v = word_of_int v # bytesLE n (v div 256)"

definition bytesBE :: "nat \<Rightarrow> int \<Rightarrow> bytes" where
  "bytesBE n v = rev (bytesLE n v)"

definition buf_writeUInt :: "bool \<Rightarrow> nat \<Rightarrow> int \<Rightarrow> error + bytes" where
  "buf_writeUInt le n v =
     (if 0 \<le> v \<and> v < 2 ^ (8 * n) then Inr (if le then bytesLE n v else bytesBE n v)
      else Inl RangeError)"

definition buf_writeInt :: "bool \<Rightarrow> nat \<Rightarrow> int \<Rightarrow> error + bytes" where
  "buf_writeInt le n v =
     (if - (2 ^ (8 * n - 1)) \<le> v \<and> v < 2 ^ (8 * n - 1)
      then Inr (if le then bytesLE n v else bytesBE n v)
      else Inl RangeError)"

definition writeInt8 :: "int \<Rightarrow> writer \<Rightarrow> error + writer" where
  "writeInt8 v w = (case buf_writeInt True 1 v of Inl e \<Rightarrow> Inl e | Inr b \<Rightarrow> Inr (write_bytes b w))"

definition writeUint8 :: "int \<Rightarrow> writer \<Rightarrow> error + writer" where
  "writeUint8 v w = (case buf_writeUInt True 1 v of Inl e \<Rightarrow> Inl e | Inr b \<Rightarrow> Inr (write_bytes b w))"

definition writeInt16 :: "int \<Rightarrow> writer \<Rightarrow> error + writer" where
  "writeInt16 v w =
     (case buf_writeInt (w_littleEndian w) 2 v of Inl e \<Rightarrow> Inl e | Inr b \<Rightarrow> Inr (write_bytes b w))"

definition writeUint16 :: "int \<Rightarrow> writer \<Rightarrow> error + writer" where
  "writeUint16 v w =
     (case buf_writeUInt (w_littleEndian w) 2 v of Inl e \<Rightarrow> Inl e | Inr b \<Rightarrow> Inr (write_bytes b w))"

definition writeInt32 :: "int \<Rightarrow> writer \<Rightarrow> error + writer" where
  "writeInt32 v w =
     (case buf_writeInt (w_littleEndian w) 4 v of Inl e \<Rightarrow> Inl e | Inr b \<Rightarrow> Inr (write_bytes b w))"

definition writeUint32 :: "int \<Rightarrow> writer \<Rightarrow> error + writer" where
  "writeUint32 v w =
     (case buf_writeUInt (w_littleEndian w) 4 v of Inl e \<Rightarrow> Inl e | Inr b \<Rightarrow> Inr (write_bytes b w))"

definition writeInt64 :: "int \<Rightarrow> writer \<Rightarrow> error + writer" where
  "writeInt64 v w =
     (case buf_writeInt (w_littleEndian w) 8 v of Inl e \<Rightarrow> Inl e | Inr b \<Rightarrow> Inr (write_bytes b w))"

definition writeUint64 :: "int \<Rightarrow> writer \<Rightarrow> error + writer" where
  "writeUint64 v w =
     (case buf_writeUInt (w_littleEndian w) 8 v of Inl e \<Rightarrow> Inl e | Inr b \<Rightarrow> Inr (write_bytes b w))"

definition writeBool :: "bool \<Rightarrow> writer \<Rightarrow> error + writer" where
  "writeBool v w = writeInt8 (if v then 1 else 0) w"

text \<open>\<^verbatim>\<open>Buffer.from(value)\<close> without an encoding uses UTF-8.\<close>

definition writeChar :: "jsrt \<Rightarrow> jsstring \<Rightarrow> writer \<Rightarrow> error + writer" where
  "writeChar rt v w =
     (let b = (case w_encoding w of Some enc \<Rightarrow> bufFromString rt enc v
                                  | None \<Rightarrow> bufFromString rt ''utf8'' v)
      in Inr (write_bytes b w))"

definition writeCString :: "jsrt \<Rightarrow> jstext \<Rightarrow> writer \<Rightarrow> error + writer" where
  "writeCString rt v w =
     (let b = (case v of
                 Str s \<Rightarrow> (case w_encoding w of Some enc \<Rightarrow> bufFromString rt enc s
                                               | None \<Rightarrow> bufFromString rt ''utf8'' s)
               | Buf b' \<Rightarrow> b')
      in writeUint8 0 (write_bytes b w))"

definition toBuffer :: "writer \<Rightarrow> bytes" where
  "toBuffer w = concat (buffers w)"

text \<open>
  The primitive integer widths, each with its encoder and its decoder, and the values it
  represents.
\<close>

datatype prim = I8 | U8 | I16 | U16 | I32 | U32 | I64 | U64

fun width :: "prim \<Rightarrow> nat" where
  "width I8 = 1" | "width U8 = 1" | "width I16 = 2" | "width U16 = 2"
| "width I32 = 4" | "width U32 = 4" | "width I64 = 8" | "width U64 = 8"

fun is_signed :: "prim \<Rightarrow> bool" where
  "is_signed I8 = True" | "is_signed I16 = True" | "is_signed I32 = True"
| "is_signed I64 = True" | "is_signed _ = False"

definition representable :: "prim \<Rightarrow> int \<Rightarrow> bool" where
  "representable p v =
     (if is_signed p then - (2 ^ (8 * width p - 1)) \<le> v \<and> v < 2 ^ (8 * width p - 1)
      else 0 \<le> v \<and> v < 2 ^ (8 * width p))"

fun encodePrim :: "prim \<Rightarrow> int \<Rightarrow> writer \<Rightarrow> error + writer" where
  "encodePrim I8 = writeInt8" | "encodePrim U8 = writeUint8"
| "encodePrim I16 = writeInt16" | "encodePrim U16 = writeUint16"
| "encodePrim I32 = writeInt32" | "encodePrim U32 = writeUint32"
| "encodePrim I64 = writeInt64" | "encodePrim U64 = writeUint64"

fun decodePrim :: "prim \<Rightarrow> int rd" where
  "decodePrim I8 = readInt8" | "decodePrim U8 = readUint8"
| "decodePrim I16 = readInt16" | "decodePrim U16 = readUint16"
| "decodePrim I32 = readInt32" | "decodePrim U32 = readUint32"
| "decodePrim I64 = readInt64" | "decodePrim U64 = readUint64"

text \<open>
  A runtime for strings of Latin-1 characters, where the codec is the identity on code
  units below 256: the instance at which the theorems about text are run.
\<close>

definition latin1_rt :: jsrt where
  "latin1_rt = \<lparr>bufToString = (\<lambda>enc b. map ucast b),
                bufFromString = (\<lambda>enc s. map ucast s),
                strToLowerCase = map (\<lambda>c. if (0x41 \<le> c \<and> c \<le> 0x5A) \<or> (0xC0 \<le> c \<and> c \<le> 0xDE \<and> c \<noteq> 0xD7)
                                          then c + 0x20 else c)\<rparr>"

section \<open>fragment.ts\<close>

record A2SFragment =
  messageId :: int
  fragmentCount :: int
  fragmentId :: int
  mtu :: int
  decompressedSize :: int
  crc :: int
  payload :: bytes

text \<open>The constructor, with its defaults for the last three fields.\<close>

definition A2SFragment_new :: "int \<Rightarrow> int \<Rightarrow> int \<Rightarrow> int \<Rightarrow> A2SFragment" where
  "A2SFragment_new mid cnt fid m =
     \<lparr>messageId = mid, fragmentCount = cnt, fragmentId = fid, mtu = m,
      decompressedSize = 0, crc = 0, payload = []\<rparr>"

text \<open>
  \<^verbatim>\<open>Boolean(this.messageId & (1 << 15))\<close>. The operands are taken as 32-bit integers; the
  only bit of the result that can be set is bit 15, which is bit 15 of the integer itself.
\<close>

definition isCompressed :: "A2SFragment \<Rightarrow> bool" where
  "isCompressed f = ((messageId f AND push_bit 15 1) \<noteq> 0)"

text \<open>
  \<^verbatim>\<open>zlib.inflateSync\<close> is the parameter \<open>inflate\<close>: \<open>None\<close> when it throws. The reader is
  local to the call, so only the outcome is returned.
\<close>

definition decodeFragment :: "(bytes \<Rightarrow> bytes option) \<Rightarrow> bytes \<Rightarrow> error + A2SFragment" where
  "decodeFragment inflate data =
     fst (bindR readUint32 (\<lambda>mid.
          bindR readUint8 (\<lambda>cnt.
          bindR readUint8 (\<lambda>fid.
          bindR readUint16 (\<lambda>m.
            let frag = A2SFragment_new mid cnt fid m in
            if isCompressed frag then
              bindR readUint32 (\<lambda>ds.
              bindR readUint32 (\<lambda>c. (\<lambda>r.
                let compressedData = peek None r in
                returnR (frag\<lparr>decompressedSize := ds, crc := c,
                               payload := (case inflate compressedData of
                                             Some p \<Rightarrow> p
                                           | None \<Rightarrow> compressedData)\<rparr>) r)))
            else (\<lambda>r. returnR (frag\<lparr>payload := peek None r\<rparr>) r)))))
        (ByteReader data True (Some ''utf-8'')))"

section \<open>socket.ts: the fragment assembler\<close>

definition HEADER_SIMPLE :: bytes where
  "HEADER_SIMPLE = [0xff, 0xff, 0xff, 0xff]"

definition HEADER_MULTI :: bytes where
  "HEADER_MULTI = [0xfe, 0xff, 0xff, 0xff]"

definition A2S_CHALLENGE_RESPONSE :: int where
  "A2S_CHALLENGE_RESPONSE = 0x41"

text \<open>
  \<^verbatim>\<open>handleMultiPacket\<close> on the field \<^verbatim>\<open>fragmentBuffer\<close>: the outcome is the buffer emitted as a
  \<^verbatim>\<open>data\<close> event, if any, or the error that \<^verbatim>\<open>decodeFragment\<close> threw. \<^verbatim>\<open>Array.prototype.sort\<close>
  is stable, as \<open>sort_key\<close> is.
\<close>

definition handleMultiPacket ::
  "(bytes \<Rightarrow> bytes option) \<Rightarrow> bytes \<Rightarrow> A2SFragment list
     \<Rightarrow> (error + bytes option) \<times> A2SFragment list" where
  "handleMultiPacket inflate data fragmentBuffer =
     (case decodeFragment inflate data of
        Inl e \<Rightarrow> (Inl e, fragmentBuffer)
      | Inr fragment \<Rightarrow>
          let pushed = fragmentBuffer @ [fragment] in
          if int (length pushed) \<ge> fragmentCount fragment then
            let sorted = sort_key fragmentId pushed;
                reassembled = concat (map payload sorted);
                finalData = (if subarray 0 4 reassembled = HEADER_SIMPLE
                             then subarray 4 (length reassembled) reassembled
                             else reassembled)
            in (Inr (Some finalData), [])
          else (Inr None, pushed))"

text \<open>The datagrams of a list handed to \<^verbatim>\<open>handleMultiPacket\<close> one after the other.\<close>

fun deliver ::
  "(bytes \<Rightarrow> bytes option) \<Rightarrow> bytes list \<Rightarrow> A2SFragment list
     \<Rightarrow> (error + bytes option) list \<times> A2SFragment list" where
  "deliver inflate [] fb = ([], fb)"
| "deliver inflate (d # ds) fb =
     (case handleMultiPacket inflate d fb of
        (out, fb') \<Rightarrow> (case deliver inflate ds fb' of (outs, fb'') \<Rightarrow> (out # outs, fb'')))"

section \<open>protocols.ts: the info response of the Source engine\<close>

text \<open>The field \<^verbatim>\<open>keywords\<close> is \<open>keywords'\<close> here, the name being reserved.\<close>

record SourceInfo =
  protocol :: int
  serverName :: jstext
  mapName :: jstext
  folder :: jstext
  game :: jstext
  appId :: int
  playerCount :: int
  maxPlayers :: int
  botCount :: int
  serverType :: jsstring
  platform :: jsstring
  passwordProtected :: bool
  vacEnabled :: bool
  version :: jstext
  edf :: int
  ping :: rat
  port :: "int option"
  steamId :: "int option"
  stvPort :: "int option"
  stvName :: "jstext option"
  keywords' :: "jstext option"
  gameId :: "int option"

text \<open>
  \<^verbatim>\<open>(reader.readChar() as string).toLowerCase()\<close>: the cast does nothing at run time. A string
  has the method; a \<^verbatim>\<open>Buffer\<close> has no \<^verbatim>\<open>toLowerCase\<close>, and calling it throws a \<open>TypeError\<close>.
\<close>

definition toLowerCase :: "jsrt \<Rightarrow> jstext \<Rightarrow> jsstring rd" where
  "toLowerCase rt v = (case v of Str s \<Rightarrow> returnR (strToLowerCase rt s) | Buf b \<Rightarrow> throwR TypeError)"

text \<open>\<^verbatim>\<open>try { ... } catch (error) { ... }\<close> around a read.\<close>

definition tryCatch :: "'a rd \<Rightarrow> (error \<Rightarrow> 'a rd) \<Rightarrow> 'a rd" where
  "tryCatch m h r = (case m r of (Inl e, r') \<Rightarrow> h e r' | (Inr v, r') \<Rightarrow> (Inr v, r'))"

definition parseSource :: "jsrt \<Rightarrow> rat \<Rightarrow> SourceInfo rd" where
  "parseSource rt png =
     bindR readUint8 (\<lambda>protocol'.
     bindR (readCString rt) (\<lambda>serverName'.
     bindR (readCString rt) (\<lambda>mapName'.
     bindR (readCString rt) (\<lambda>folder'.
     bindR (readCString rt) (\<lambda>game'.
     bindR readUint16 (\<lambda>appId'.
     bindR readUint8 (\<lambda>playerCount'.
     bindR readUint8 (\<lambda>maxPlayers'.
     bindR readUint8 (\<lambda>botCount'.
     bindR (bindR (readChar rt) (toLowerCase rt)) (\<lambda>serverType'.
     bindR (bindR (readChar rt) (toLowerCase rt)) (\<lambda>platform0.
     let platform' = (if platform0 = [0x6F] then [0x6D] else platform0) in
     bindR readBool (\<lambda>passwordProtected'.
     bindR readBool (\<lambda>vacEnabled'.
     bindR (readCString rt) (\<lambda>version'.
     bindR (tryCatch readUint8
              (\<lambda>error. if \<not> instanceofBufferExhaustedError error then throwR error
                       else returnR 0)) (\<lambda>edf'.
     let info = \<lparr>protocol = protocol', serverName = serverName', mapName = mapName',
                 folder = folder', game = game', appId = appId',
                 playerCount = playerCount', maxPlayers = maxPlayers', botCount = botCount',
                 serverType = serverType', platform = platform',
                 passwordProtected = passwordProtected', vacEnabled = vacEnabled',
                 version = version', edf = edf', ping = png,
                 port = None, steamId = None, stvPort = None, stvName = None,
                 keywords' = None, gameId = None\<rparr> in
     bindR (if (edf' AND 0x80) \<noteq> 0
            then bindR readUint16 (\<lambda>v. returnR (info\<lparr>port := Some v\<rparr>))
            else returnR info) (\<lambda>info.
     bindR (if (edf' AND 0x10) \<noteq> 0
            then bindR readUint64 (\<lambda>v. returnR (info\<lparr>steamId := Some v\<rparr>))
            else returnR info) (\<lambda>info.
     bindR (if (edf' AND 0x40) \<noteq> 0
            then bindR readUint16 (\<lambda>p.
                 bindR (readCString rt) (\<lambda>n.
                 returnR (info\<lparr>stvPort := Some p, stvName := Some n\<rparr>)))
            else returnR info) (\<lambda>info.
     bindR (if (edf' AND 0x20) \<noteq> 0
            then bindR (readCString rt) (\<lambda>v. returnR (info\<lparr>keywords' := Some v\<rparr>))
            else returnR info) (\<lambda>info.
     bindR (if (edf' AND 0x01) \<noteq> 0
            then bindR readUint64 (\<lambda>v. returnR (info\<lparr>gameId := Some v\<rparr>))
            else returnR info) (\<lambda>info.
     returnR info))))))))))))))))))))"

text \<open>
  The wire layout of the response after its type byte, as the tests of the repository build
  it: the fixed part up to the version string, and the optional tail in the order of the
  flag bits \<open>0x80\<close>, \<open>0x10\<close>, \<open>0x40\<close>, \<open>0x20\<close>, \<open>0x01\<close>. The strings are given as their bytes.
\<close>

record fixedPart =
  w_protocol :: byte
  w_serverName :: bytes
  w_mapName :: bytes
  w_folder :: bytes
  w_game :: bytes
  w_appId :: "byte \<times> byte"
  w_playerCount :: byte
  w_maxPlayers :: byte
  w_botCount :: byte
  w_serverType :: byte
  w_platform :: byte
  w_passwordProtected :: byte
  w_vacEnabled :: byte
  w_version :: bytes

fun bytes2 :: "byte \<times> byte \<Rightarrow> bytes" where
  "bytes2 (a, b) = [a, b]"

fun bytes8 :: "byte \<times> byte \<times> byte \<times> byte \<times> byte \<times> byte \<times> byte \<times> byte \<Rightarrow> bytes" where
  "bytes8 (a, b, c, d, e, f, g, h) = [a, b, c, d, e, f, g, h]"

definition wireFixed :: "fixedPart \<Rightarrow> bytes" where
  "wireFixed x =
     [w_protocol x] @ w_serverName x @ [0] @ w_mapName x @ [0] @ w_folder x @ [0]
     @ w_game x @ [0] @ bytes2 (w_appId x)
     @ [w_playerCount x, w_maxPlayers x, w_botCount x, w_serverType x, w_platform x,
        w_passwordProtected x, w_vacEnabled x]
     @ w_version x @ [0]"

definition zeroFree :: "fixedPart \<Rightarrow> bool" where
  "zeroFree x = (0 \<notin> set (w_serverName x) \<and> 0 \<notin> set (w_mapName x) \<and> 0 \<notin> set (w_folder x)
                 \<and> 0 \<notin> set (w_game x) \<and> 0 \<notin> set (w_version x))"

record flagSet =
  has_port :: bool
  has_steam_id :: bool
  has_stv :: bool
  has_keywords :: bool
  has_game_id :: bool

definition flagsByte :: "flagSet \<Rightarrow> byte" where
  "flagsByte fl =
     (if has_port fl then 0x80 else 0) OR (if has_steam_id fl then 0x10 else 0)
     OR (if has_stv fl then 0x40 else 0) OR (if has_keywords fl then 0x20 else 0)
     OR (if has_game_id fl then 0x01 else 0)"

record tailPart =
  w_port :: "byte \<times> byte"
  w_steamId :: "byte \<times> byte \<times> byte \<times> byte \<times> byte \<times> byte \<times> byte \<times> byte"
  w_stvPort :: "byte \<times> byte"
  w_stvName :: bytes
  w_keywords :: bytes
  w_gameId :: "byte \<times> byte \<times> byte \<times> byte \<times> byte \<times> byte \<times> byte \<times> byte"

definition wireTail :: "flagSet \<Rightarrow> tailPart \<Rightarrow> bytes" where
  "wireTail fl t =
     (if has_port fl then bytes2 (w_port t) else [])
     @ (if has_steam_id fl then bytes8 (w_steamId t) else [])
     @ (if has_stv fl then bytes2 (w_stvPort t) @ w_stvName t @ [0] else [])
     @ (if has_keywords fl then w_keywords t @ [0] else [])
     @ (if has_game_id fl then bytes8 (w_gameId t) else [])"

text \<open>The record that the fixed part stands for, in the text mode \<open>enc\<close>, with no optional field.\<close>

definition fixedInfo :: "jsrt \<Rightarrow> string \<Rightarrow> rat \<Rightarrow> fixedPart \<Rightarrow> SourceInfo" where
  "fixedInfo rt enc png x =
     \<lparr>protocol = uint (w_protocol x),
      serverName = Str (bufToString rt enc (w_serverName x)),
      mapName = Str (bufToString rt enc (w_mapName x)),
      folder = Str (bufToString rt enc (w_folder x)),
      game = Str (bufToString rt enc (w_game x)),
      appId = uintLE (bytes2 (w_appId x)),
      playerCount = uint (w_playerCount x),
      maxPlayers = uint (w_maxPlayers x),
      botCount = uint (w_botCount x),
      serverType = strToLowerCase rt (bufToString rt enc [w_serverType x]),
      platform = (if strToLowerCase rt (bufToString rt enc [w_platform x]) = [0x6F] then [0x6D]
                  else strToLowerCase rt (bufToString rt enc [w_platform x])),
      passwordProtected = (sintLE [w_passwordProtected x] \<noteq> 0),
      vacEnabled = (sintLE [w_vacEnabled x] \<noteq> 0),
      version = Str (bufToString rt enc (w_version x)),
      edf = 0, ping = png,
      port = None, steamId = None, stvPort = None, stvName = None,
      keywords' = None, gameId = None\<rparr>"

section \<open>protocols.ts: the handler interface and the rules query\<close>

record 'a ProtocolHandler =
  validateResponseType :: "int \<Rightarrow> bool"
  serializeRequest :: "int \<Rightarrow> error + bytes"
  deserializeResponse :: "reader \<Rightarrow> int \<Rightarrow> rat \<Rightarrow> (error + 'a) \<times> reader"

definition A2S_RULES_RESPONSE :: int where
  "A2S_RULES_RESPONSE = 0x45"

text \<open>
  The \<^verbatim>\<open>for\<close> loop of \<^verbatim>\<open>RulesProtocol.deserializeResponse\<close>, by the number of rounds left.
  \<^verbatim>\<open>rules[key] = value\<close> stores under the key as a string: a \<^verbatim>\<open>Buffer\<close> key is converted
  with its \<^verbatim>\<open>toString()\<close>, which decodes UTF-8. The map holds the own properties of the
  object: an assignment to the key \<^verbatim>\<open>__proto__\<close> goes to the prototype accessor and adds none.
\<close>

definition propertyKey :: "jsrt \<Rightarrow> jstext \<Rightarrow> jsstring" where
  "propertyKey rt k = (case k of Str s \<Rightarrow> s | Buf b \<Rightarrow> bufToString rt ''utf8'' b)"

definition proto_key :: jsstring where
  "proto_key = [0x5F, 0x5F, 0x70, 0x72, 0x6F, 0x74, 0x6F, 0x5F, 0x5F]"

fun rules_loop :: "jsrt \<Rightarrow> nat \<Rightarrow> (jsstring \<rightharpoonup> jstext) \<Rightarrow> (jsstring \<rightharpoonup> jstext) rd" where
  "rules_loop rt 0 rules = returnR rules"
| "rules_loop rt (Suc n) rules =
     bindR (readCString rt) (\<lambda>key.
     bindR (readCString rt) (\<lambda>val.
     rules_loop rt n (if propertyKey rt key = proto_key then rules
                      else rules(propertyKey rt key \<mapsto> val))))"

definition RulesProtocol :: "jsrt \<Rightarrow> (jsstring \<rightharpoonup> jstext) ProtocolHandler" where
  "RulesProtocol rt =
     \<lparr>validateResponseType = (\<lambda>responseType. responseType = A2S_RULES_RESPONSE),
      serializeRequest = (\<lambda>challenge.
        case buf_writeUInt True 4 challenge of
          Inl e \<Rightarrow> Inl e
        | Inr challengeBuffer \<Rightarrow> Inr ([0x56] @ challengeBuffer)),
      deserializeResponse = (\<lambda>reader _ _.
        bindR readUint16 (\<lambda>ruleCount. rules_loop rt (nat ruleCount) Map.empty) reader)\<rparr>"

section \<open>a2s.ts: the client\<close>

text \<open>
  Modelled from the spec: \<^verbatim>\<open>defaults.ts\<close> is not among the sources; the specification and
  the tests give 5 as the default maximum of challenge retries. The client's \<open>request\<close>
  takes the maximum as a parameter. Its parameter \<^verbatim>\<open>protocol\<close> is \<open>handler\<close> here.
\<close>

definition DEFAULT_RETRIES :: nat where
  "DEFAULT_RETRIES = 5"

text \<open>
  The client and its transport as one state: the client's \<^verbatim>\<open>closed\<close> flag and encoding, the
  socket's \<^verbatim>\<open>closed\<close> flag, the payloads handed to \<^verbatim>\<open>A2SSocket.request\<close> so far, and how
  often the UDP socket underneath has been closed.
\<close>

record client =
  c_encoding :: "string option"
  c_closed :: bool
  sock_closed :: bool
  requests :: "bytes list"
  udp_closes :: nat

text \<open>
  What the network makes of a request: the response that the transport resolves with
  (after the given number of milliseconds), a rejection (the timeout, or an error event),
  or a failed transmission. The network answers by the payloads requested so far.
\<close>

datatype outcome = Response nat bytes | Rejected error | SendFailed error

definition socket_close :: "client \<Rightarrow> client" where
  "socket_close c =
     (if \<not> sock_closed c then c\<lparr>sock_closed := True, udp_closes := udp_closes c + 1\<rparr> else c)"

definition close :: "client \<Rightarrow> client" where
  "close c = (if \<not> c_closed c then (socket_close c)\<lparr>c_closed := True\<rparr> else c)"

text \<open>
  \<^verbatim>\<open>A2SSocket.request\<close> as the client sees it: the promise it returns. The exchange of
  datagrams, the assembler of the section before and the timer are the network's answer.
  A closed socket drops the send without a word, so the request times out; a failed
  transmission closes the socket and rejects. Every call is recorded in \<open>requests\<close>.
\<close>

definition socket_request ::
  "(bytes list \<Rightarrow> outcome) \<Rightarrow> bytes \<Rightarrow> client \<Rightarrow> (error + nat \<times> bytes) \<times> client" where
  "socket_request net pkt c =
     (let c1 = c\<lparr>requests := requests c @ [pkt]\<rparr> in
      if sock_closed c then (Inl (PlainError ''Request timeout''), c1)
      else case net (requests c1) of
             Response ms data \<Rightarrow> (Inr (ms, data), c1)
           | Rejected e \<Rightarrow> (Inl e, c1)
           | SendFailed e \<Rightarrow> (Inl e, socket_close c1))"

function request ::
  "nat \<Rightarrow> (bytes list \<Rightarrow> outcome) \<Rightarrow> 'a ProtocolHandler \<Rightarrow> int \<Rightarrow> nat \<Rightarrow> client
     \<Rightarrow> (error + 'a) \<times> client" where
  "request maxRetries net handler challenge retries c =
     (if c_closed c then (Inl (PlainError ''A2SClient socket already closed''), c)
      else case serializeRequest handler challenge of
        Inl e \<Rightarrow> (Inl e, c)
      | Inr pkt \<Rightarrow>
      (case socket_request net pkt c of
        (Inl e, c1) \<Rightarrow> (Inl e, c1)
      | (Inr (ms, responseData), c1) \<Rightarrow>
          let png = (if retries = 0 then of_nat ms / 1000 else 0);
              reader = ByteReader responseData True (c_encoding c1)
          in (case readUint8 reader of
                (Inl e, _) \<Rightarrow> (Inl e, c1)
              | (Inr responseType, reader1) \<Rightarrow>
                  if responseType = A2S_CHALLENGE_RESPONSE then
                    if retries \<ge> maxRetries then
                      (Inl (BrokenMessageError KeepsSendingChallenge),
                       if retries = 0 then close c1 else c1)
                    else (case readUint32 reader1 of
                            (Inl e, _) \<Rightarrow> (Inl e, c1)
                          | (Inr newChallenge, _) \<Rightarrow>
                              request maxRetries net handler newChallenge (retries + 1) c1)
                  else if \<not> validateResponseType handler responseType then
                    (Inl (BrokenMessageError (InvalidResponseType responseType)),
                     if retries = 0 then close c1 else c1)
                  else (case deserializeResponse handler reader1 responseType png of
                          (Inl e, _) \<Rightarrow> (Inl e, c1)
                        | (Inr result, _) \<Rightarrow>
                            (Inr result, if retries = 0 then close c1 else c1)))))"
  by pat_completeness auto
termination
  by (relation "measure (\<lambda>(maxRetries, net, handler, challenge, retries, c). maxRetries - retries)")
     auto

declare request.simps [simp del]

text \<open>\<^verbatim>\<open>A2SClient.rules()\<close>, with the maximum of retries and the runtime as parameters.\<close>

definition rules ::
  "jsrt \<Rightarrow> nat \<Rightarrow> (bytes list \<Rightarrow> outcome) \<Rightarrow> client \<Rightarrow> (error + (jsstring \<rightharpoonup> jstext)) \<times> client" where
  "rules rt maxRetries net c =
     (if c_closed c then (Inl (PlainError ''A2SClient socket already closed''), c)
      else request maxRetries net (RulesProtocol rt) 0 0 c)"

definition A2SClient :: "string option \<Rightarrow> client" where
  "A2SClient enc =
     \<lparr>c_encoding = enc, c_closed = False, sock_closed = False, requests = [], udp_closes = 0\<rparr>"

lemma latin1_rt_simps [simp]:
  "bufToString latin1_rt enc b = map ucast b"
  "bufFromString latin1_rt enc s = map ucast s"
  "strToLowerCase latin1_rt s =
     map (\<lambda>c. if (0x41 \<le> c \<and> c \<le> 0x5A) \<or> (0xC0 \<le> c \<and> c \<le> 0xDE \<and> c \<noteq> 0xD7)
              then c + 0x20 else c) s"
  by (simp_all add: latin1_rt_def)

section \<open>Failed reads leave the reader as it was\<close>

text \<open>
  C10. If \<^verbatim>\<open>read(size)\<close> fails with \<^verbatim>\<open>BufferExhaustedError\<close>, the reader is unchanged by the
  failed call: its position is the same, \<^verbatim>\<open>peek()\<close> shows the same remaining bytes, and every
  later read behaves as it would have before the failed call.
\<close>

theorem read_failure_atomic:
  assumes "fst (read sz r) = Inl BufferExhaustedError"
  shows "snd (read sz r) = r
       \<and> position (snd (read sz r)) = position r
       \<and> peek None (snd (read sz r)) = peek None r
       \<and> read m (snd (read sz r)) = read m r"
  using assms by (simp add: read_def split: if_splits)

theorem read_failure_atomic_witness:
  "fst (read 3 (ByteReader [1, 2] True None)) = Inl BufferExhaustedError
   \<and> snd (read 3 (ByteReader [1, 2] True None)) = ByteReader [1, 2] True None
   \<and> peek None (snd (read 3 (ByteReader [1, 2] True None))) = [1, 2]
   \<and> fst (read 2 (snd (read 3 (ByteReader [1, 2] True None)))) = Inr [1, 2]"
  using read_failure_atomic [of 3 "ByteReader [1, 2] True None" 2]
  by (simp add: read_def ByteReader_def peek_def subarray_def)

section \<open>Stepping a reader through known bytes\<close>

text \<open>
  The bytes not yet read, and the reader moved on by \<open>n\<close> bytes: a read of a field whose bytes
  lie ahead returns the field and moves on by its length.
\<close>

definition remaining :: "reader \<Rightarrow> bytes" where
  "remaining r = drop (position r) (buffer r)"

definition advance :: "nat \<Rightarrow> reader \<Rightarrow> reader" where
  "advance n r = r\<lparr>position := position r + n\<rparr>"

lemma advance_simps [simp]:
  "buffer (advance n r) = buffer r"
  "position (advance n r) = position r + n"
  "encoding (advance n r) = encoding r"
  "littleEndian (advance n r) = littleEndian r"
  by (simp_all add: advance_def)

lemma advance_advance: "advance m (advance n r) = advance (n + m) r"
  by (simp add: advance_def add.assoc)

lemma remaining_ByteReader [simp]: "remaining (ByteReader b le enc) = b"
  by (simp add: remaining_def ByteReader_def)

lemma ByteReader_simps [simp]:
  "buffer (ByteReader b le enc) = b"
  "position (ByteReader b le enc) = 0"
  "encoding (ByteReader b le enc) = enc"
  "littleEndian (ByteReader b le enc) = le"
  by (simp_all add: ByteReader_def)

lemma peek_None: "peek None r = remaining r"
  by (simp add: peek_def remaining_def subarray_def)

lemma remaining_bound:
  assumes "remaining r = xs @ rest" "xs \<noteq> []"
  shows "position r + length xs \<le> length (buffer r)"
proof (cases xs)
  case Nil
  then show ?thesis using assms(2) by simp
next
  case (Cons a ys)
  have "length (remaining r) = length xs + length rest" using assms(1) by simp
  then show ?thesis unfolding Cons remaining_def by simp
qed

lemma read_at:
  assumes "remaining r = xs @ rest" "xs \<noteq> []"
  shows "read (length xs) r = (Inr xs, advance (length xs) r)"
proof -
  have "take (length xs) (drop (position r) (buffer r)) = xs"
    using assms(1) by (simp add: remaining_def)
  then show ?thesis
    using remaining_bound [OF assms] by (simp add: read_def subarray_def advance_def)
qed

lemma remaining_advance:
  assumes "remaining r = xs @ rest"
  shows "remaining (advance (length xs) r) = rest"
proof -
  have "drop (length xs) (drop (position r) (buffer r)) = rest"
    using assms by (simp add: remaining_def)
  then show ?thesis by (simp add: remaining_def add.commute)
qed

lemma read_exhausted:
  "length (remaining r) < n \<Longrightarrow> read n r = (Inl BufferExhaustedError, r)"
  by (auto simp: read_def remaining_def)

lemma readUint8_at:
  assumes "remaining r = b # rest"
  shows "readUint8 r = (Inr (uint b), advance 1 r)"
  using read_at [of r "[b]" rest] assms by (simp add: readUint8_def bindR_def returnR_def)

lemma readCString_loop_at:
  assumes "remaining r = s @ 0 # rest" "0 \<notin> set s"
  shows "readCString_loop acc r = (Inr (acc @ map uint s), advance (length s + 1) r)"
  using assms
proof (induction s arbitrary: acc r)
  case Nil
  then show ?case
    by (subst readCString_loop.simps) (simp add: readUint8_at)
next
  case (Cons b s)
  have b0: "uint b \<noteq> 0" using Cons.prems(2) by (auto simp: uint_0_iff)
  have rem: "remaining (advance 1 r) = s @ 0 # rest"
    using remaining_advance [of r "[b]" "s @ 0 # rest"] Cons.prems(1) by simp
  have "readCString_loop acc r = readCString_loop (acc @ [uint b]) (advance 1 r)"
    using Cons.prems(1) b0 by (subst readCString_loop.simps) (simp add: readUint8_at)
  also have "\<dots> = (Inr ((acc @ [uint b]) @ map uint s), advance (length s + 1) (advance 1 r))"
    using Cons.IH [OF rem] Cons.prems(2) by simp
  finally show ?case by (simp add: advance_advance add.commute)
qed

lemma bufferFromArray_uint [simp]: "bufferFromArray (map uint s) = s"
  by (simp add: bufferFromArray_def comp_def)

lemma readCString_at:
  assumes "remaining r = s @ 0 # rest" "0 \<notin> set s"
  shows "readCString rt r =
    (Inr (case encoding r of Some enc \<Rightarrow> Str (bufToString rt enc s) | None \<Rightarrow> Buf s),
     advance (length s + 1) r)"
  using readCString_loop_at [OF assms, of "[]"]
  by (simp add: readCString_def bindR_def returnR_def)

section \<open>Encoding then decoding\<close>

text \<open>The bytes of an integer, read back as unsigned or as two's complement.\<close>

lemma length_bytesLE [simp]: "length (bytesLE n v) = n"
  by (induction n arbitrary: v) auto

lemma uintLE_bytesLE: "uintLE (bytesLE n v) = v mod 256 ^ n"
proof (induction n arbitrary: v)
  case 0
  show ?case by simp
next
  case (Suc n)
  have "uint (word_of_int v :: byte) = v mod 256"
    by (simp add: uint_word_of_int take_bit_eq_mod)
  then show ?case
    using Suc [of "v div 256"] zmod_zmult2_eq [of "256 ^ n" v 256] by simp
qed

lemma uintLE_unsigned: "0 \<le> v \<Longrightarrow> v < 2 ^ (8 * n) \<Longrightarrow> uintLE (bytesLE n v) = v"
  by (simp add: uintLE_bytesLE power_mult)

lemma toSigned_mod:
  assumes "0 < n" "- (2 ^ (8 * n - 1)) \<le> v" "v < 2 ^ (8 * n - 1)"
  shows "toSigned n (v mod 256 ^ n) = v"
proof -
  define H :: int where "H = 2 ^ (8 * n - 1)"
  have "(2::int) ^ (8 * n) = 2 ^ Suc (8 * n - 1)"
    using assms(1) by simp
  then have M: "(2::int) ^ (8 * n) = 2 * H"
    by (simp add: H_def)
  have M': "(256::int) ^ n = 2 * H"
    using M by (simp add: power_mult)
  have Hpos: "0 < H" by (simp add: H_def)
  have lo: "- H \<le> v" and hi: "v < H"
    using assms(2,3) by (simp_all add: H_def)
  have ts: "toSigned n x = (if H \<le> x then x - 2 * H else x)" for x
    unfolding toSigned_def M H_def [symmetric] ..
  show ?thesis
  proof (cases "0 \<le> v")
    case True
    then have "v mod (2 * H) = v" using hi Hpos by simp
    then show ?thesis using hi by (simp add: ts M')
  next
    case False
    then have "(v + 2 * H) mod (2 * H) = v + 2 * H"
      using lo Hpos by (intro mod_pos_pos_trivial) auto
    then have "v mod (2 * H) = v + 2 * H" by simp
    then show ?thesis using lo by (simp add: ts M')
  qed
qed

lemma sintLE_signed:
  "0 < n \<Longrightarrow> - (2 ^ (8 * n - 1)) \<le> v \<Longrightarrow> v < 2 ^ (8 * n - 1) \<Longrightarrow> sintLE (bytesLE n v) = v"
  by (simp add: sintLE_def uintLE_bytesLE toSigned_mod)

lemma uintBE_unsigned: "0 \<le> v \<Longrightarrow> v < 2 ^ (8 * n) \<Longrightarrow> uintBE (bytesBE n v) = v"
  by (simp add: uintBE_def bytesBE_def uintLE_unsigned)

lemma sintBE_signed:
  "0 < n \<Longrightarrow> - (2 ^ (8 * n - 1)) \<le> v \<Longrightarrow> v < 2 ^ (8 * n - 1) \<Longrightarrow> sintBE (bytesBE n v) = v"
  by (simp add: sintBE_def uintBE_def bytesBE_def uintLE_bytesLE toSigned_mod)

lemma decodePrim_at:
  assumes "remaining r = xs @ rest" "length xs = width p"
  shows "decodePrim p r =
     (Inr (if is_signed p then (if littleEndian r then sintLE xs else sintBE xs)
           else (if littleEndian r then uintLE xs else uintBE xs)),
      advance (width p) r)"
proof -
  have ne: "xs \<noteq> []" using assms(2) by (cases p) auto
  have one: "length xs = 1 \<Longrightarrow> sintBE xs = sintLE xs \<and> uintBE xs = uintLE xs"
    by (cases xs) (auto simp: sintBE_def sintLE_def uintBE_def)
  show ?thesis
    using read_at [OF assms(1) ne] assms(2) one
    by (cases p)
       (simp_all add: readInt8_def readUint8_def readInt16_def readUint16_def readInt32_def
          readUint32_def readInt64_def readUint64_def bindR_def returnR_def)
qed

lemma encodePrim_ok:
  assumes "representable p v"
  shows "encodePrim p v (ByteWriter le wenc) =
     Inr (write_bytes (if le then bytesLE (width p) v else bytesBE (width p) v) (ByteWriter le wenc))"
proof -
  have one: "bytesBE 1 v = bytesLE 1 v" by (simp add: bytesBE_def)
  show ?thesis
    using assms one
    by (cases p)
       (simp_all add: representable_def writeInt8_def writeUint8_def writeInt16_def
          writeUint16_def writeInt32_def writeUint32_def writeInt64_def writeUint64_def
          buf_writeInt_def buf_writeUInt_def ByteWriter_def write_bytes_def)
qed

lemma toBuffer_write1 [simp]: "toBuffer (write_bytes b (ByteWriter le wenc)) = b"
  by (simp add: toBuffer_def write_bytes_def ByteWriter_def)

lemma prim_value:
  assumes "representable p v"
  shows "(if is_signed p then (if le then sintLE (bytesLE (width p) v) else sintBE (bytesBE (width p) v))
          else (if le then uintLE (bytesLE (width p) v) else uintBE (bytesBE (width p) v))) = v"
proof -
  have "0 < width p" by (cases p) auto
  then show ?thesis
    using assms
    by (auto simp: representable_def sintLE_signed sintBE_signed uintLE_unsigned uintBE_unsigned)
qed

lemma prim_roundtrip:
  assumes "representable p v"
  shows "\<exists>w. encodePrim p v (ByteWriter le wenc) = Inr w \<and>
             decodePrim p (ByteReader (toBuffer w @ rest) le renc) =
               (Inr v, advance (width p) (ByteReader (toBuffer w @ rest) le renc))"
proof -
  let ?bs = "if le then bytesLE (width p) v else bytesBE (width p) v"
  let ?r = "ByteReader (?bs @ rest) le renc"
  have len: "length ?bs = width p" by (simp add: bytesBE_def)
  have "decodePrim p ?r = (Inr v, advance (width p) ?r)"
    using decodePrim_at [of ?r ?bs rest p] len prim_value [OF assms, of le]
    by (simp split: if_splits)
  then show ?thesis
    using encodePrim_ok [OF assms, of le wenc] by simp
qed

lemma bool_roundtrip:
  "\<exists>w. writeBool b (ByteWriter le wenc) = Inr w \<and>
       readBool (ByteReader (toBuffer w @ rest) le renc) =
         (Inr b, advance 1 (ByteReader (toBuffer w @ rest) le renc))"
proof -
  let ?v = "if b then 1 else 0 :: int"
  have rep: "representable I8 ?v" by (simp add: representable_def)
  obtain w where w: "encodePrim I8 ?v (ByteWriter le wenc) = Inr w"
    and d: "decodePrim I8 (ByteReader (toBuffer w @ rest) le renc) =
              (Inr ?v, advance (width I8) (ByteReader (toBuffer w @ rest) le renc))"
    using prim_roundtrip [OF rep, of le wenc rest renc] by blast
  show ?thesis
    using w d by (auto simp: writeBool_def readBool_def bindR_def returnR_def)
qed

lemma writeCString_ok:
  "writeCString rt v (ByteWriter le wenc) = Inr w \<Longrightarrow>
     toBuffer w = (case v of Str s \<Rightarrow> (case wenc of Some enc \<Rightarrow> bufFromString rt enc s
                                                   | None \<Rightarrow> bufFromString rt ''utf8'' s)
                   | Buf b \<Rightarrow> b) @ [0]"
  by (auto simp: writeCString_def writeUint8_def buf_writeUInt_def write_bytes_def
        ByteWriter_def toBuffer_def Let_def split: jstext.splits option.splits)

lemma writeCString_total: "\<exists>w. writeCString rt v (ByteWriter le wenc) = Inr w"
  by (simp add: writeCString_def writeUint8_def buf_writeUInt_def Let_def)

lemma cstring_roundtrip:
  assumes "writeCString rt v (ByteWriter le wenc) = Inr w"
    and "0 \<notin> set (case v of Str s \<Rightarrow> (case wenc of Some enc \<Rightarrow> bufFromString rt enc s
                                                   | None \<Rightarrow> bufFromString rt ''utf8'' s)
                   | Buf b \<Rightarrow> b)" (is "0 \<notin> set ?wire")
  shows "readCString rt (ByteReader (toBuffer w @ rest) le renc) =
     (Inr (case renc of Some enc \<Rightarrow> Str (bufToString rt enc ?wire) | None \<Rightarrow> Buf ?wire),
      advance (length ?wire + 1) (ByteReader (toBuffer w @ rest) le renc))"
proof -
  have "remaining (ByteReader (toBuffer w @ rest) le renc) = ?wire @ 0 # rest"
    using writeCString_ok [OF assms(1)] by simp
  from readCString_at [OF this assms(2), of rt] show ?thesis by simp
qed

text \<open>
  C5. For each of the eight integer widths, for booleans and for null-terminated strings, in
  either byte order, decoding what the encoder wrote gives the value back and stops right
  after it, whatever bytes follow. The representable integers are those of the width (for
  the others the encoder throws); the representable strings are those whose encoded bytes
  hold no zero byte and that the text codec itself gives back. In raw mode the value is a
  buffer without a zero byte.
\<close>

theorem codec_roundtrip:
  "(representable p v \<longrightarrow>
      (\<exists>w. encodePrim p v (ByteWriter le wenc) = Inr w \<and>
           fst (decodePrim p (ByteReader (toBuffer w @ rest) le renc)) = Inr v \<and>
           position (snd (decodePrim p (ByteReader (toBuffer w @ rest) le renc))) = width p))
 \<and> (\<exists>w. writeBool b (ByteWriter le wenc) = Inr w \<and>
           fst (readBool (ByteReader (toBuffer w @ rest) le renc)) = Inr b \<and>
           position (snd (readBool (ByteReader (toBuffer w @ rest) le renc))) = 1)
 \<and> (0 \<notin> set raw \<longrightarrow>
      (\<exists>w. writeCString rt (Buf raw) (ByteWriter le wenc) = Inr w \<and>
           fst (readCString rt (ByteReader (toBuffer w @ rest) le None)) = Inr (Buf raw) \<and>
           position (snd (readCString rt (ByteReader (toBuffer w @ rest) le None))) = length raw + 1))
 \<and> (0 \<notin> set (bufFromString rt enc s) \<and> bufToString rt enc (bufFromString rt enc s) = s \<longrightarrow>
      (\<exists>w. writeCString rt (Str s) (ByteWriter le (Some enc)) = Inr w \<and>
           fst (readCString rt (ByteReader (toBuffer w @ rest) le (Some enc))) = Inr (Str s) \<and>
           position (snd (readCString rt (ByteReader (toBuffer w @ rest) le (Some enc))))
             = length (bufFromString rt enc s) + 1))"
proof (intro conjI impI)
  assume "representable p v"
  from prim_roundtrip [OF this, of le wenc rest renc]
  show "\<exists>w. encodePrim p v (ByteWriter le wenc) = Inr w \<and>
           fst (decodePrim p (ByteReader (toBuffer w @ rest) le renc)) = Inr v \<and>
           position (snd (decodePrim p (ByteReader (toBuffer w @ rest) le renc))) = width p"
    by auto
next
  from bool_roundtrip [of b le wenc rest renc]
  show "\<exists>w. writeBool b (ByteWriter le wenc) = Inr w \<and>
           fst (readBool (ByteReader (toBuffer w @ rest) le renc)) = Inr b \<and>
           position (snd (readBool (ByteReader (toBuffer w @ rest) le renc))) = 1"
    by auto
next
  assume raw: "0 \<notin> set raw"
  obtain w where w: "writeCString rt (Buf raw) (ByteWriter le wenc) = Inr w"
    using writeCString_total by blast
  from cstring_roundtrip [OF w, of rest None] raw w
  show "\<exists>w. writeCString rt (Buf raw) (ByteWriter le wenc) = Inr w \<and>
           fst (readCString rt (ByteReader (toBuffer w @ rest) le None)) = Inr (Buf raw) \<and>
           position (snd (readCString rt (ByteReader (toBuffer w @ rest) le None))) = length raw + 1"
    by auto
next
  assume s: "0 \<notin> set (bufFromString rt enc s) \<and> bufToString rt enc (bufFromString rt enc s) = s"
  obtain w where w: "writeCString rt (Str s) (ByteWriter le (Some enc)) = Inr w"
    using writeCString_total by blast
  from cstring_roundtrip [OF w, of rest "Some enc"] s w
  show "\<exists>w. writeCString rt (Str s) (ByteWriter le (Some enc)) = Inr w \<and>
           fst (readCString rt (ByteReader (toBuffer w @ rest) le (Some enc))) = Inr (Str s) \<and>
           position (snd (readCString rt (ByteReader (toBuffer w @ rest) le (Some enc))))
             = length (bufFromString rt enc s) + 1"
    by auto
qed

theorem codec_roundtrip_witness:
  "representable I64 (- 9223372036854775808)
   \<and> (\<exists>w. encodePrim I64 (- 9223372036854775808) (ByteWriter True None) = Inr w \<and>
           fst (decodePrim I64 (ByteReader (toBuffer w @ [7]) True None)) = Inr (- 9223372036854775808) \<and>
           position (snd (decodePrim I64 (ByteReader (toBuffer w @ [7]) True None))) = 8)
   \<and> representable U64 18446744073709551615
   \<and> (\<exists>w. encodePrim U64 18446744073709551615 (ByteWriter False None) = Inr w \<and>
           fst (decodePrim U64 (ByteReader (toBuffer w @ [7]) False None)) = Inr 18446744073709551615)
   \<and> representable I8 (- 1)
   \<and> (\<exists>w. encodePrim I8 (- 1) (ByteWriter True None) = Inr w \<and>
           fst (decodePrim I8 (ByteReader (toBuffer w @ [7]) True None)) = Inr (- 1))
   \<and> representable U16 0
   \<and> (\<exists>w. encodePrim U16 0 (ByteWriter True None) = Inr w \<and>
           fst (decodePrim U16 (ByteReader (toBuffer w @ [7]) True None)) = Inr 0)
   \<and> representable I32 2147483647
   \<and> (\<exists>w. encodePrim I32 2147483647 (ByteWriter False None) = Inr w \<and>
           fst (decodePrim I32 (ByteReader (toBuffer w @ [7]) False None)) = Inr 2147483647)
   \<and> (\<exists>w. writeBool True (ByteWriter True None) = Inr w \<and>
           fst (readBool (ByteReader (toBuffer w @ [7]) True None)) = Inr True)
   \<and> (0::byte) \<notin> set [0x64, 0x65]
   \<and> (\<exists>w. writeCString latin1_rt (Buf [0x64, 0x65]) (ByteWriter True None) = Inr w \<and>
           fst (readCString latin1_rt (ByteReader (toBuffer w @ [7]) True None)) = Inr (Buf [0x64, 0x65]))
   \<and> 0 \<notin> set (bufFromString latin1_rt ''latin1'' [0x64, 0xE9])
   \<and> bufToString latin1_rt ''latin1'' (bufFromString latin1_rt ''latin1'' [0x64, 0xE9]) = [0x64, 0xE9]
   \<and> (\<exists>w. writeCString latin1_rt (Str [0x64, 0xE9]) (ByteWriter True (Some ''latin1'')) = Inr w \<and>
           fst (readCString latin1_rt (ByteReader (toBuffer w @ [7]) True (Some ''latin1''))) = Inr (Str [0x64, 0xE9]))"
  using codec_roundtrip [of I64 "- 9223372036854775808" True None "[7]" None True "[0x64, 0x65]"
          latin1_rt "''latin1''" "[0x64, 0xE9]"]
        codec_roundtrip [of U64 18446744073709551615 False None "[7]" None True "[0x64, 0x65]"
          latin1_rt "''latin1''" "[0x64, 0xE9]"]
        codec_roundtrip [of I8 "- 1" True None "[7]" None True "[0x64, 0x65]"
          latin1_rt "''latin1''" "[0x64, 0xE9]"]
        codec_roundtrip [of U16 0 True None "[7]" None True "[0x64, 0x65]"
          latin1_rt "''latin1''" "[0x64, 0xE9]"]
        codec_roundtrip [of I32 2147483647 False None "[7]" None True "[0x64, 0x65]"
          latin1_rt "''latin1''" "[0x64, 0xE9]"]
  by (auto simp add: representable_def)

section \<open>The reader's methods in terms of the bytes not yet read\<close>

lemma remaining_advance_drop [simp]: "remaining (advance n r) = drop n (remaining r)"
  by (simp add: remaining_def add.commute)

lemma read_rem:
  "0 < n \<Longrightarrow> read n r =
     (if length (remaining r) < n then (Inl BufferExhaustedError, r)
      else (Inr (take n (remaining r)), advance n r))"
  by (auto simp: read_def remaining_def subarray_def advance_def)

lemma readUint8_rem:
  "readUint8 r = (if length (remaining r) < 1 then (Inl BufferExhaustedError, r)
                  else (Inr (uintLE (take 1 (remaining r))), advance 1 r))"
  by (simp add: readUint8_def bindR_def returnR_def read_rem)

lemma readInt8_rem:
  "readInt8 r = (if length (remaining r) < 1 then (Inl BufferExhaustedError, r)
                  else (Inr (sintLE (take 1 (remaining r))), advance 1 r))"
  by (simp add: readInt8_def bindR_def returnR_def read_rem)

lemma readBool_rem:
  "readBool r = (if length (remaining r) < 1 then (Inl BufferExhaustedError, r)
                  else (Inr (sintLE (take 1 (remaining r)) \<noteq> 0), advance 1 r))"
  by (simp add: readBool_def bindR_def returnR_def readInt8_rem)

lemma readUint16_rem:
  "readUint16 r = (if length (remaining r) < 2 then (Inl BufferExhaustedError, r)
                  else (Inr (if littleEndian r then uintLE (take 2 (remaining r))
                             else uintBE (take 2 (remaining r))), advance 2 r))"
  by (simp add: readUint16_def bindR_def returnR_def read_rem)

lemma readUint32_rem:
  "readUint32 r = (if length (remaining r) < 4 then (Inl BufferExhaustedError, r)
                  else (Inr (if littleEndian r then uintLE (take 4 (remaining r))
                             else uintBE (take 4 (remaining r))), advance 4 r))"
  by (simp add: readUint32_def bindR_def returnR_def read_rem)

lemma readUint64_rem:
  "readUint64 r = (if length (remaining r) < 8 then (Inl BufferExhaustedError, r)
                  else (Inr (if littleEndian r then uintLE (take 8 (remaining r))
                             else uintBE (take 8 (remaining r))), advance 8 r))"
  by (simp add: readUint64_def bindR_def returnR_def read_rem)

lemma readChar_rem:
  "readChar rt r = (if length (remaining r) < 1 then (Inl BufferExhaustedError, r)
                  else (Inr (case encoding r of Some enc \<Rightarrow> Str (bufToString rt enc (take 1 (remaining r)))
                                               | None \<Rightarrow> Buf (take 1 (remaining r))), advance 1 r))"
  by (simp add: readChar_def bindR_def returnR_def read_rem split: option.split)

lemmas reader_rem = readUint8_rem readInt8_rem readBool_rem readUint16_rem readUint32_rem
  readUint64_rem readChar_rem

section \<open>Decoding fragments\<close>

lemma decodeFragment_plain:
  assumes "(uintLE [m0, m1, m2, m3] AND push_bit 15 1) = 0"
  shows "decodeFragment inflate ([m0, m1, m2, m3, cnt, fid, t0, t1] @ rest)
         = Inr \<lparr>messageId = uintLE [m0, m1, m2, m3], fragmentCount = uint cnt,
                fragmentId = uint fid, mtu = uintLE [t0, t1],
                decompressedSize = 0, crc = 0, payload = rest\<rparr>"
  using assms
  by (simp add: decodeFragment_def bindR_def returnR_def reader_rem peek_None
        A2SFragment_new_def isCompressed_def)

text \<open>
  C8. A fragment datagram whose message id has bit 15 set and whose sixteen header bytes are
  there, followed by bytes that \<^verbatim>\<open>inflateSync\<close> rejects, decodes without an error to a
  fragment whose payload is those bytes as they came.
\<close>

theorem decodeFragment_inflate_failure:
  assumes "inflate rest = None"
    and "(uintLE [m0, m1, m2, m3] AND push_bit 15 1) \<noteq> 0"
  shows "decodeFragment inflate
           ([m0, m1, m2, m3, cnt, fid, t0, t1, d0, d1, d2, d3, c0, c1, c2, c3] @ rest)
         = Inr \<lparr>messageId = uintLE [m0, m1, m2, m3], fragmentCount = uint cnt,
                fragmentId = uint fid, mtu = uintLE [t0, t1],
                decompressedSize = uintLE [d0, d1, d2, d3], crc = uintLE [c0, c1, c2, c3],
                payload = rest\<rparr>"
  using assms
  by (simp add: decodeFragment_def bindR_def returnR_def reader_rem peek_None
        A2SFragment_new_def isCompressed_def)


theorem decodeFragment_inflate_failure_witness:
  "(uintLE [1, 0x80, 0, 0] AND push_bit 15 1) \<noteq> 0
   \<and> decodeFragment (\<lambda>_. None) [1, 0x80, 0, 0, 2, 1, 0xB0, 4, 5, 0, 0, 0, 9, 0, 0, 0, 0x78, 0x9C, 3]
       = Inr \<lparr>messageId = 32769, fragmentCount = 2, fragmentId = 1, mtu = 1200,
              decompressedSize = 5, crc = 9, payload = [0x78, 0x9C, 3]\<rparr>"
  using decodeFragment_inflate_failure [of "\<lambda>_. None" "[0x78, 0x9C, 3]" 1 "0x80" 0 0 2 1 "0xB0" 4 5 0 0 0 9 0 0 0]
  by simp

section \<open>Reassembly\<close>

text \<open>What the assembler emits for the pending fragments \<open>fs\<close>.\<close>

definition assembled :: "A2SFragment list \<Rightarrow> bytes" where
  "assembled fs =
     (let reassembled = concat (map payload (sort_key fragmentId fs))
      in if take 4 reassembled = HEADER_SIMPLE then drop 4 reassembled else reassembled)"

lemma handleMultiPacket_decoded:
  assumes "decodeFragment inflate d = Inr f"
  shows "handleMultiPacket inflate d fb =
     (if fragmentCount f \<le> int (length fb) + 1
      then (Inr (Some (assembled (fb @ [f]))), [])
      else (Inr None, fb @ [f]))"
  using assms by (simp add: handleMultiPacket_def assembled_def Let_def subarray_def)

lemma deliver_pending:
  assumes "list_all2 (\<lambda>d f. decodeFragment inflate d = Inr f) ds fs"
    and "\<forall>f\<in>set fs. fragmentCount f = n"
    and "int (length fb) + int (length fs) < n"
  shows "deliver inflate ds fb = (replicate (length fs) (Inr None), fb @ fs)"
  using assms
proof (induction ds fs arbitrary: fb rule: list_all2_induct)
  case Nil
  then show ?case by simp
next
  case (Cons d ds f fs)
  have step: "handleMultiPacket inflate d fb = (Inr None, fb @ [f])"
    using Cons.hyps(1) Cons.prems by (simp add: handleMultiPacket_decoded)
  have "deliver inflate ds (fb @ [f]) = (replicate (length fs) (Inr None), (fb @ [f]) @ fs)"
    using Cons.prems by (intro Cons.IH) auto
  then show ?case using step by simp
qed

lemma deliver_append:
  "deliver inflate (xs @ ys) fb =
     (case deliver inflate xs fb of
        (o1, fb1) \<Rightarrow> (case deliver inflate ys fb1 of (o2, fb2) \<Rightarrow> (o1 @ o2, fb2)))"
  by (induction xs arbitrary: fb) (auto split: prod.splits)

lemma deliver_complete:
  assumes dec: "list_all2 (\<lambda>d f. decodeFragment inflate d = Inr f) ds fs"
    and cnt: "\<forall>f\<in>set fs. fragmentCount f = int (length fs)"
    and ne: "fs \<noteq> []"
  shows "deliver inflate ds [] =
     (replicate (length fs - 1) (Inr None) @ [Inr (Some (assembled fs))], [])"
proof -
  have len: "length ds = length fs" using dec by (rule list_all2_lengthD)
  obtain fs0 f where fs: "fs = fs0 @ [f]" using ne by (cases fs rule: rev_cases) auto
  obtain ds0 d where ds: "ds = ds0 @ [d]"
    using len ne by (cases ds rule: rev_cases) auto
  have dec0: "list_all2 (\<lambda>d f. decodeFragment inflate d = Inr f) ds0 fs0"
    and decl: "decodeFragment inflate d = Inr f"
    using dec len unfolding fs ds by (auto simp: list_all2_append)
  have pend: "deliver inflate ds0 [] = (replicate (length fs0) (Inr None), [] @ fs0)"
    using cnt unfolding fs by (intro deliver_pending [OF dec0, of "int (length fs0) + 1"]) auto
  have last: "handleMultiPacket inflate d fs0 = (Inr (Some (assembled (fs0 @ [f]))), [])"
    using cnt unfolding fs by (simp add: handleMultiPacket_decoded [OF decl])
  show ?thesis
    unfolding ds fs deliver_append using pend last by simp
qed

lemma sort_key_distinct_mset:
  assumes "mset xs = mset ys" "distinct (map f xs)"
  shows "sort_key f xs = sort_key f ys"
proof -
  have m: "mset (map f xs) = mset (map f ys)" using assms(1) by (metis mset_map)
  have dy: "distinct (map f ys)" using assms(2) m by (metis mset_eq_imp_distinct_iff)
  have s: "set xs = set ys" using assms(1) by (rule mset_eq_setD)
  have "map f (sort_key f xs) = map f (sort_key f ys)"
  proof (rule sorted_distinct_set_unique)
    show "distinct (map f (sort_key f xs))" using assms(2) by (simp add: distinct_map)
    show "distinct (map f (sort_key f ys))" using dy by (simp add: distinct_map)
    show "set (map f (sort_key f xs)) = set (map f (sort_key f ys))" using s by simp
  qed simp_all
  moreover have "inj_on f (set (sort_key f xs) \<union> set (sort_key f ys))"
    using assms(2) s by (simp add: distinct_map)
  ultimately show ?thesis by (simp add: inj_on_map_eq_map)
qed

lemma insort_key_rel:
  assumes "list_all2 R xs ys" "R x y" "\<And>a b. R a b \<Longrightarrow> k a = k b"
  shows "list_all2 R (insort_key k x xs) (insort_key k y ys)"
  using assms(1)
proof (induction rule: list_all2_induct)
  case Nil
  then show ?case using assms(2) by simp
next
  case (Cons a as b bs)
  then show ?case using assms(2) assms(3) [OF assms(2)] assms(3) [of a b] by simp
qed

lemma sort_key_rel:
  assumes "list_all2 R xs ys" "\<And>a b. R a b \<Longrightarrow> k a = k b"
  shows "list_all2 R (sort_key k xs) (sort_key k ys)"
  using assms(1)
proof (induction rule: list_all2_induct)
  case Nil
  then show ?case by simp
next
  case (Cons a as b bs)
  then show ?case using insort_key_rel [of R _ _ a b k] assms(2) by simp
qed

lemma assembled_rel:
  assumes "list_all2 (\<lambda>a b. fragmentId a = fragmentId b \<and> payload a = payload b) xs ys"
  shows "assembled xs = assembled ys"
proof -
  have "list_all2 (\<lambda>a b. fragmentId a = fragmentId b \<and> payload a = payload b)
          (sort_key fragmentId xs) (sort_key fragmentId ys)"
    using assms by (rule sort_key_rel) simp
  then have "map payload (sort_key fragmentId xs) = map payload (sort_key fragmentId ys)"
    by (induction rule: list_all2_induct) auto
  then show ?thesis by (simp add: assembled_def)
qed

text \<open>
  C3. The fragments \<open>fs\<close> of one message, all declaring \<open>length fs\<close> as their count, arrive
  as the datagrams \<open>ds\<close> at an assembler with nothing pending. Every datagram but the last
  emits nothing; the last emits the payloads concatenated in ascending \<open>fragmentId\<close>, without
  a leading simple-response header. When the fragment ids are distinct, any other arrival
  order \<open>ds'\<close> of the same fragments gives the same outcome.
\<close>

theorem reassembly_count_gated:
  assumes "list_all2 (\<lambda>d f. decodeFragment inflate d = Inr f) ds fs"
    and "\<forall>f\<in>set fs. fragmentCount f = int (length fs)"
    and "fs \<noteq> []"
  shows "deliver inflate ds [] =
           (replicate (length fs - 1) (Inr None) @
            [Inr (Some (let m = concat (map payload (sort_key fragmentId fs))
                        in if take 4 m = HEADER_SIMPLE then drop 4 m else m))], [])
       \<and> (distinct (map fragmentId fs) \<and> mset fs' = mset fs
            \<and> list_all2 (\<lambda>d f. decodeFragment inflate d = Inr f) ds' fs'
          \<longrightarrow> deliver inflate ds' [] = deliver inflate ds [])"
proof (intro conjI impI)
  show first: "deliver inflate ds [] =
           (replicate (length fs - 1) (Inr None) @
            [Inr (Some (let m = concat (map payload (sort_key fragmentId fs))
                        in if take 4 m = HEADER_SIMPLE then drop 4 m else m))], [])"
    using deliver_complete [OF assms] by (simp add: assembled_def)
  assume h: "distinct (map fragmentId fs) \<and> mset fs' = mset fs
            \<and> list_all2 (\<lambda>d f. decodeFragment inflate d = Inr f) ds' fs'"
  then have m: "mset fs' = mset fs" and dec': "list_all2 (\<lambda>d f. decodeFragment inflate d = Inr f) ds' fs'"
    and dist: "distinct (map fragmentId fs)"
    by simp_all
  have len: "length fs' = length fs" using m by (rule mset_eq_length)
  have set: "set fs' = set fs" using m by (rule mset_eq_setD)
  have cnt': "\<forall>f\<in>set fs'. fragmentCount f = int (length fs')"
    using assms(2) len set by simp
  have ne': "fs' \<noteq> []" using assms(3) len by auto
  have srt: "sort_key fragmentId fs' = sort_key fragmentId fs"
    using sort_key_distinct_mset [OF m [symmetric] dist] by simp
  show "deliver inflate ds' [] = deliver inflate ds []"
    using deliver_complete [OF dec' cnt' ne'] deliver_complete [OF assms] len srt
    by (simp add: assembled_def)
qed

theorem reassembly_count_gated_witness:
  "deliver (\<lambda>_. None) [[0x7B, 0, 0, 0, 2, 1, 0xB0, 4, 0x42], [0x7B, 0, 0, 0, 2, 0, 0xB0, 4, 0x41]] []
     = ([Inr None, Inr (Some [0x41, 0x42])], [])
   \<and> deliver (\<lambda>_. None) [[0x7B, 0, 0, 0, 2, 0, 0xB0, 4, 0x41], [0x7B, 0, 0, 0, 2, 1, 0xB0, 4, 0x42]] []
     = deliver (\<lambda>_. None) [[0x7B, 0, 0, 0, 2, 1, 0xB0, 4, 0x42], [0x7B, 0, 0, 0, 2, 0, 0xB0, 4, 0x41]] []"
  using reassembly_count_gated [of "\<lambda>_. None"
      "[[0x7B, 0, 0, 0, 2, 1, 0xB0, 4, 0x42], [0x7B, 0, 0, 0, 2, 0, 0xB0, 4, 0x41]]"
      "[\<lparr>messageId = 123, fragmentCount = 2, fragmentId = 1, mtu = 1200,
          decompressedSize = 0, crc = 0, payload = [0x42]\<rparr>,
        \<lparr>messageId = 123, fragmentCount = 2, fragmentId = 0, mtu = 1200,
          decompressedSize = 0, crc = 0, payload = [0x41]\<rparr>]"
      "[\<lparr>messageId = 123, fragmentCount = 2, fragmentId = 0, mtu = 1200,
          decompressedSize = 0, crc = 0, payload = [0x41]\<rparr>,
        \<lparr>messageId = 123, fragmentCount = 2, fragmentId = 1, mtu = 1200,
          decompressedSize = 0, crc = 0, payload = [0x42]\<rparr>]"
      "[[0x7B, 0, 0, 0, 2, 0, 0xB0, 4, 0x41], [0x7B, 0, 0, 0, 2, 1, 0xB0, 4, 0x42]]"]
    decodeFragment_plain [of "0x7B" 0 0 0 "\<lambda>_. None" 2 1 "0xB0" 4 "[0x42]"]
    decodeFragment_plain [of "0x7B" 0 0 0 "\<lambda>_. None" 2 0 "0xB0" 4 "[0x41]"]
  by (simp add: HEADER_SIMPLE_def)

text \<open>
  C4, as the code has it. The assembler never looks at \<open>messageId\<close>: a decoded fragment is
  always appended to the pending fragments, and once the pending count reaches the
  fragment's \<open>fragmentCount\<close> all of them are assembled, whatever message each belongs to.
  Rewriting the message ids of the pending fragments changes nothing in what is emitted.
\<close>

theorem handleMultiPacket_ignores_messageId:
  assumes "decodeFragment inflate d = Inr f"
  shows "handleMultiPacket inflate d fb =
           (if fragmentCount f \<le> int (length fb) + 1
            then (Inr (Some (let m = concat (map payload (sort_key fragmentId (fb @ [f])))
                             in if take 4 m = HEADER_SIMPLE then drop 4 m else m)), [])
            else (Inr None, fb @ [f]))
       \<and> fst (handleMultiPacket inflate d (map (\<lambda>x. x\<lparr>messageId := g x\<rparr>) fb))
           = fst (handleMultiPacket inflate d fb)"
proof -
  have "list_all2 (\<lambda>a b. fragmentId a = fragmentId b \<and> payload a = payload b)
          (map (\<lambda>x. x\<lparr>messageId := g x\<rparr>) fb @ [f]) (fb @ [f])"
    by (simp add: list_all2_append list_all2_map1 list_all2_same)
  then have "assembled (map (\<lambda>x. x\<lparr>messageId := g x\<rparr>) fb @ [f]) = assembled (fb @ [f])"
    by (rule assembled_rel)
  then show ?thesis
    by (simp add: handleMultiPacket_decoded [OF assms] assembled_def)
qed

theorem handleMultiPacket_ignores_messageId_witness:
  "decodeFragment (\<lambda>_. None) [1, 0, 0, 0, 3, 1, 0xB0, 4, 0x42]
     = Inr \<lparr>messageId = 1, fragmentCount = 3, fragmentId = 1, mtu = 1200,
            decompressedSize = 0, crc = 0, payload = [0x42]\<rparr>
   \<and> handleMultiPacket (\<lambda>_. None) [1, 0, 0, 0, 3, 1, 0xB0, 4, 0x42]
       [\<lparr>messageId = 2, fragmentCount = 3, fragmentId = 0, mtu = 1200,
         decompressedSize = 0, crc = 0, payload = [0x41]\<rparr>]
     = (Inr None,
        [\<lparr>messageId = 2, fragmentCount = 3, fragmentId = 0, mtu = 1200,
          decompressedSize = 0, crc = 0, payload = [0x41]\<rparr>,
         \<lparr>messageId = 1, fragmentCount = 3, fragmentId = 1, mtu = 1200,
          decompressedSize = 0, crc = 0, payload = [0x42]\<rparr>])"
  using handleMultiPacket_ignores_messageId [of "\<lambda>_. None" "[1, 0, 0, 0, 3, 1, 0xB0, 4, 0x42]"
      "\<lparr>messageId = 1, fragmentCount = 3, fragmentId = 1, mtu = 1200,
        decompressedSize = 0, crc = 0, payload = [0x42]\<rparr>"
      "[\<lparr>messageId = 2, fragmentCount = 3, fragmentId = 0, mtu = 1200,
         decompressedSize = 0, crc = 0, payload = [0x41]\<rparr>]" "\<lambda>_. 0"]
    decodeFragment_plain [of 1 0 0 0 "\<lambda>_. None" 3 1 "0xB0" 4 "[0x42]"]
  by simp

text \<open>
  A fragment of message 1 arriving while a fragment of message 2 is pending is not discarded:
  it completes the count and its payload is assembled with the pending one.
\<close>

theorem other_message_fragment_counterexample:
  "handleMultiPacket (\<lambda>_. None) [1, 0, 0, 0, 2, 1, 0xB0, 4, 0x42]
       [\<lparr>messageId = 2, fragmentCount = 2, fragmentId = 0, mtu = 1200,
         decompressedSize = 0, crc = 0, payload = [0x41]\<rparr>]
     = (Inr (Some [0x41, 0x42]), [])"
  using decodeFragment_plain [of 1 0 0 0 "\<lambda>_. None" 2 1 "0xB0" 4 "[0x42]"]
  by (simp add: handleMultiPacket_def subarray_def HEADER_SIMPLE_def)

section \<open>Parsing the info response\<close>

text \<open>
  \<^verbatim>\<open>readCString\<close> by the bytes not yet read: it returns the bytes before the first zero and
  moves past that zero; without a zero it has consumed everything when it throws.
\<close>

lemma advance_0 [simp]: "advance 0 r = r"
  by (simp add: advance_def)

lemma readCString_loop_exhausted:
  assumes "0 \<notin> set (remaining r)"
  shows "readCString_loop acc r = (Inl BufferExhaustedError, advance (length (remaining r)) r)"
  using assms
proof (induction "remaining r" arbitrary: acc r)
  case Nil
  then show ?case
    by (subst readCString_loop.simps) (simp add: readUint8_rem)
next
  case (Cons b s)
  have rem: "remaining r = b # s" using Cons.hyps(2) by simp
  have b0: "uint b \<noteq> 0" using Cons.prems rem by (auto simp: uint_0_iff)
  have s: "s = remaining (advance 1 r)" using rem by simp
  have "readCString_loop acc r = readCString_loop (acc @ [uint b]) (advance 1 r)"
    using rem b0 by (subst readCString_loop.simps) (simp add: readUint8_rem)
  also have "\<dots> = (Inl BufferExhaustedError, advance (length (remaining (advance 1 r))) (advance 1 r))"
    using Cons.prems rem by (intro Cons.hyps(1) [OF s]) simp
  finally show ?case using rem by (simp add: advance_advance)
qed

lemma split_at_zero:
  assumes "0 \<in> set xs"
  shows "xs = takeWhile (\<lambda>b. b \<noteq> 0) xs @ 0 # drop (Suc (length (takeWhile (\<lambda>b. b \<noteq> 0) xs))) xs"
proof -
  have "xs = takeWhile (\<lambda>b. b \<noteq> 0) xs @ dropWhile (\<lambda>b. b \<noteq> 0) xs" by simp
  moreover have "dropWhile (\<lambda>b. b \<noteq> 0) xs \<noteq> []" using assms by (simp add: dropWhile_eq_Nil_conv)
  moreover have "hd (dropWhile (\<lambda>b. b \<noteq> 0) xs) = 0"
    using hd_dropWhile [of "\<lambda>b. b \<noteq> 0" xs] calculation(2) by simp
  ultimately have "xs = takeWhile (\<lambda>b. b \<noteq> 0) xs @ 0 # tl (dropWhile (\<lambda>b. b \<noteq> 0) xs)"
    by (metis list.collapse)
  moreover have "tl (dropWhile (\<lambda>b. b \<noteq> 0) xs) = drop (Suc (length (takeWhile (\<lambda>b. b \<noteq> 0) xs))) xs"
    by (simp add: dropWhile_eq_drop drop_Suc tl_drop)
  ultimately show ?thesis by simp
qed

lemma readCString_rem:
  "readCString rt r =
     (let s = takeWhile (\<lambda>b. b \<noteq> 0) (remaining r) in
      if 0 \<in> set (remaining r)
      then (Inr (case encoding r of Some enc \<Rightarrow> Str (bufToString rt enc s) | None \<Rightarrow> Buf s),
            advance (length s + 1) r)
      else (Inl BufferExhaustedError, advance (length (remaining r)) r))"
proof (cases "0 \<in> set (remaining r)")
  case True
  let ?s = "takeWhile (\<lambda>b. b \<noteq> 0) (remaining r)"
  have "remaining r = ?s @ 0 # drop (Suc (length ?s)) (remaining r)"
    using split_at_zero [OF True] .
  moreover have "0 \<notin> set ?s" by (auto dest: set_takeWhileD)
  ultimately show ?thesis using True readCString_at [of r ?s _ rt] by (simp add: Let_def)
next
  case False
  then show ?thesis
    using readCString_loop_exhausted [of r "[]"]
    by (simp add: readCString_def bindR_def Let_def)
qed

lemma takeWhile_nz [simp]: "0 \<notin> set s \<Longrightarrow> takeWhile (\<lambda>b. b \<noteq> 0) (s @ 0 # rest) = s"
  by (induction s) auto

lemma drop_past_zero [simp]: "drop (Suc (length s)) (s @ x # rest) = rest"
  by simp

lemmas parse_steps = bindR_def returnR_def throwR_def tryCatch_def toLowerCase_def
  reader_rem readCString_rem

lemma length_bytes2 [simp]: "length (bytes2 p) = 2"
  by (cases p) simp

lemma length_bytes8 [simp]: "length (bytes8 p) = 8"
  by (cases p rule: bytes8.cases) simp

lemma flags_decode [simp]:
  "((uint (flagsByte fl) AND 0x80) \<noteq> 0) = has_port fl"
  "((uint (flagsByte fl) AND 0x10) \<noteq> 0) = has_steam_id fl"
  "((uint (flagsByte fl) AND 0x40) \<noteq> 0) = has_stv fl"
  "((uint (flagsByte fl) AND 0x20) \<noteq> 0) = has_keywords fl"
  "((uint (flagsByte fl) AND 0x01) \<noteq> 0) = has_game_id fl"
  by (cases "has_port fl"; cases "has_steam_id fl"; cases "has_stv fl";
      cases "has_keywords fl"; cases "has_game_id fl"; simp add: flagsByte_def)+

text \<open>
  A response used to run the theorems below: the end-to-end scenario of the specification,
  with the server type \<^verbatim>\<open>D\<close> and the platform \<^verbatim>\<open>o\<close> so that both normalisations show.
\<close>

definition scenario :: fixedPart where
  "scenario =
     \<lparr>w_protocol = 17,
      w_serverName = [0x54, 0x65, 0x73, 0x74],
      w_mapName = [0x64, 0x65, 0x5F, 0x64, 0x75, 0x73, 0x74, 0x32],
      w_folder = [0x63, 0x73, 0x74, 0x72, 0x69, 0x6B, 0x65],
      w_game = [0x43, 0x53, 0x47, 0x4F],
      w_appId = (0xDA, 0x02),
      w_playerCount = 10, w_maxPlayers = 32, w_botCount = 0,
      w_serverType = 0x44, w_platform = 0x6F,
      w_passwordProtected = 0, w_vacEnabled = 1,
      w_version = [0x31, 0x2E, 0x30]\<rparr>"

definition scenarioTail :: tailPart where
  "scenarioTail =
     \<lparr>w_port = (0x87, 0x69),
      w_steamId = (1, 0, 0, 0, 0, 0, 0, 0),
      w_stvPort = (0x88, 0x69),
      w_stvName = [0x54, 0x56],
      w_keywords = [0x61, 0x2C, 0x62],
      w_gameId = (0xDA, 0x02, 0, 0, 0, 0, 0, 0)\<rparr>"

lemma scenario_wire:
  "wireFixed scenario =
     [0x11, 0x54, 0x65, 0x73, 0x74, 0, 0x64, 0x65, 0x5F, 0x64, 0x75, 0x73, 0x74, 0x32, 0,
      0x63, 0x73, 0x74, 0x72, 0x69, 0x6B, 0x65, 0, 0x43, 0x53, 0x47, 0x4F, 0, 0xDA, 0x02,
      10, 32, 0, 0x44, 0x6F, 0, 1, 0x31, 0x2E, 0x30, 0]"
  "zeroFree scenario"
  by (simp_all add: wireFixed_def scenario_def zeroFree_def)

text \<open>The parse of a fixed part alone, and of a fixed part with its flags byte and tail.\<close>

lemma parseSource_fixed_run:
  assumes "zeroFree x"
  shows "parseSource rt png (ByteReader (wireFixed x) True (Some enc))
           = (Inr (fixedInfo rt enc png x), advance (length (wireFixed x)) (ByteReader (wireFixed x) True (Some enc)))"
  using assms
  by (simp add: parseSource_def wireFixed_def zeroFree_def fixedInfo_def parse_steps Let_def)

lemma parseSource_tail_run:
  assumes "zeroFree x" "0 \<notin> set (w_stvName t)" "0 \<notin> set (w_keywords t)"
  shows "parseSource rt png
           (ByteReader (wireFixed x @ [flagsByte fl] @ wireTail fl t) True (Some enc))
         = (Inr ((fixedInfo rt enc png x)
                  \<lparr>edf := uint (flagsByte fl),
                   port := (if has_port fl then Some (uintLE (bytes2 (w_port t))) else None),
                   steamId := (if has_steam_id fl then Some (uintLE (bytes8 (w_steamId t))) else None),
                   stvPort := (if has_stv fl then Some (uintLE (bytes2 (w_stvPort t))) else None),
                   stvName := (if has_stv fl then Some (Str (bufToString rt enc (w_stvName t))) else None),
                   keywords' := (if has_keywords fl then Some (Str (bufToString rt enc (w_keywords t))) else None),
                   gameId := (if has_game_id fl then Some (uintLE (bytes8 (w_gameId t))) else None)\<rparr>),
            advance (length (wireFixed x @ [flagsByte fl] @ wireTail fl t))
              (ByteReader (wireFixed x @ [flagsByte fl] @ wireTail fl t) True (Some enc)))"
  using assms
  by (simp add: parseSource_def wireFixed_def wireTail_def zeroFree_def fixedInfo_def
        parse_steps Let_def)

lemma scenario_length: "length (wireFixed scenario) = 41"
  by (simp add: scenario_wire)

lemma scenario_port_run:
  "fst (parseSource latin1_rt 0 (ByteReader (wireFixed scenario @ [0x80, 0x87, 0x69]) True (Some ''latin1'')))
     = Inr ((fixedInfo latin1_rt ''latin1'' 0 scenario)\<lparr>edf := 128, port := Some 27015\<rparr>)"
  "position (snd (parseSource latin1_rt 0
     (ByteReader (wireFixed scenario @ [0x80, 0x87, 0x69]) True (Some ''latin1'')))) = 44"
  using parseSource_tail_run [of scenario scenarioTail latin1_rt 0
      "\<lparr>has_port = True, has_steam_id = False, has_stv = False,
        has_keywords = False, has_game_id = False\<rparr>" "''latin1''"]
  by (simp_all add: scenario_wire(2) scenario_length scenarioTail_def flagsByte_def wireTail_def
        fixedInfo_def)

text \<open>
  C6. For every subset of the five flags, a response made of a fixed part, the flags byte of
  that subset and the tail holding that subset's fields in the order \<open>0x80\<close>, \<open>0x10\<close>,
  \<open>0x40\<close>, \<open>0x20\<close>, \<open>0x01\<close> parses, in a text mode \<open>enc\<close>, to the record of the fixed part
  in which exactly the fields of the subset are set, each to the value the tail holds, and
  the parse consumes the whole response.
\<close>

theorem edf_optional_fields:
  assumes "zeroFree x" "0 \<notin> set (w_stvName t)" "0 \<notin> set (w_keywords t)"
  shows "fst (parseSource rt png
           (ByteReader (wireFixed x @ [flagsByte fl] @ wireTail fl t) True (Some enc)))
         = Inr ((fixedInfo rt enc png x)
                  \<lparr>edf := uint (flagsByte fl),
                   port := (if has_port fl then Some (uintLE (bytes2 (w_port t))) else None),
                   steamId := (if has_steam_id fl then Some (uintLE (bytes8 (w_steamId t))) else None),
                   stvPort := (if has_stv fl then Some (uintLE (bytes2 (w_stvPort t))) else None),
                   stvName := (if has_stv fl then Some (Str (bufToString rt enc (w_stvName t))) else None),
                   keywords' := (if has_keywords fl then Some (Str (bufToString rt enc (w_keywords t))) else None),
                   gameId := (if has_game_id fl then Some (uintLE (bytes8 (w_gameId t))) else None)\<rparr>)
       \<and> position (snd (parseSource rt png
           (ByteReader (wireFixed x @ [flagsByte fl] @ wireTail fl t) True (Some enc))))
         = length (wireFixed x @ [flagsByte fl] @ wireTail fl t)"
  using parseSource_tail_run [OF assms, of rt png fl enc] by simp

theorem edf_optional_fields_witness:
  "zeroFree scenario \<and> 0 \<notin> set (w_stvName scenarioTail) \<and> 0 \<notin> set (w_keywords scenarioTail)
   \<and> wireFixed scenario
       @ [flagsByte \<lparr>has_port = True, has_steam_id = False, has_stv = False,
                     has_keywords = True, has_game_id = False\<rparr>]
       @ wireTail \<lparr>has_port = True, has_steam_id = False, has_stv = False,
                   has_keywords = True, has_game_id = False\<rparr> scenarioTail
       = wireFixed scenario @ [0xA0, 0x87, 0x69, 0x61, 0x2C, 0x62, 0]
   \<and> fst (parseSource latin1_rt 0
           (ByteReader (wireFixed scenario @ [0xA0, 0x87, 0x69, 0x61, 0x2C, 0x62, 0]) True (Some ''latin1'')))
       = Inr ((fixedInfo latin1_rt ''latin1'' 0 scenario)
               \<lparr>edf := 160, port := Some 27015, steamId := None, stvPort := None,
                stvName := None, keywords' := Some (Str [0x61, 0x2C, 0x62]), gameId := None\<rparr>)"
  using edf_optional_fields [of scenario scenarioTail latin1_rt 0
      "\<lparr>has_port = True, has_steam_id = False, has_stv = False,
        has_keywords = True, has_game_id = False\<rparr>" "''latin1''"]
  by (simp add: scenario_wire scenarioTail_def flagsByte_def wireTail_def)

section \<open>Truncated responses\<close>

text \<open>
  The reader over the first \<open>k\<close> bytes of its buffer. A parser is \<open>prefix_stable\<close> when a run
  that succeeds on a buffer succeeds with the same result on every truncation that keeps
  the bytes it consumed, and throws \<^verbatim>\<open>BufferExhaustedError\<close> on every shorter one. Every
  read of the reader is; the \<^verbatim>\<open>try\<close>/\<^verbatim>\<open>catch\<close> around the flags byte is what is not.
\<close>

definition trunc :: "nat \<Rightarrow> reader \<Rightarrow> reader" where
  "trunc k r = r\<lparr>buffer := take k (buffer r)\<rparr>"

lemma trunc_simps [simp]:
  "buffer (trunc k r) = take k (buffer r)"
  "position (trunc k r) = position r"
  "encoding (trunc k r) = encoding r"
  "littleEndian (trunc k r) = littleEndian r"
  "trunc k (advance n r) = advance n (trunc k r)"
  by (simp_all add: trunc_def advance_def)

lemma remaining_trunc: "position r \<le> k \<Longrightarrow> remaining (trunc k r) = take (k - position r) (remaining r)"
  by (simp add: remaining_def drop_take)

definition prefix_stable :: "'a rd \<Rightarrow> bool" where
  "prefix_stable m \<longleftrightarrow>
     (\<forall>r v r'. m r = (Inr v, r') \<longrightarrow>
        (\<exists>n. r' = advance n r) \<and>
        (\<forall>k. position r \<le> k \<longrightarrow>
           (if position r' \<le> k then m (trunc k r) = (Inr v, trunc k r')
            else fst (m (trunc k r)) = Inl BufferExhaustedError)))"

lemma prefix_stable_returnR: "prefix_stable (returnR x)"
  by (auto simp: prefix_stable_def returnR_def intro: exI [of _ 0])

lemma prefix_stable_throwR: "prefix_stable (throwR e)"
  by (simp add: prefix_stable_def throwR_def)

lemma prefix_stable_if:
  "prefix_stable m1 \<Longrightarrow> prefix_stable m2 \<Longrightarrow> prefix_stable (if c then m1 else m2)"
  by simp

lemma prefix_stable_bind:
  assumes m: "prefix_stable m" and f: "\<And>v. prefix_stable (f v)"
  shows "prefix_stable (bindR m f)"
  unfolding prefix_stable_def
proof (intro allI impI)
  fix r w r2
  assume run: "bindR m f r = (Inr w, r2)"
  then obtain v r1 where m1: "m r = (Inr v, r1)" and f1: "f v r1 = (Inr w, r2)"
    by (auto simp: bindR_def split: prod.splits sum.splits)
  from m m1 obtain n1 where r1: "r1 = advance n1 r"
    and mk: "\<And>k. position r \<le> k \<Longrightarrow>
           (if position r1 \<le> k then m (trunc k r) = (Inr v, trunc k r1)
            else fst (m (trunc k r)) = Inl BufferExhaustedError)"
    unfolding prefix_stable_def by blast
  from f [of v] f1 obtain n2 where r2: "r2 = advance n2 r1"
    and fk: "\<And>k. position r1 \<le> k \<Longrightarrow>
           (if position r2 \<le> k then f v (trunc k r1) = (Inr w, trunc k r2)
            else fst (f v (trunc k r1)) = Inl BufferExhaustedError)"
    unfolding prefix_stable_def by blast
  have "\<exists>n. r2 = advance n r" using r1 r2 by (auto simp: advance_advance)
  moreover have "if position r2 \<le> k then bindR m f (trunc k r) = (Inr w, trunc k r2)
            else fst (bindR m f (trunc k r)) = Inl BufferExhaustedError"
    if k: "position r \<le> k" for k
  proof (cases "position r1 \<le> k")
    case True
    then have "m (trunc k r) = (Inr v, trunc k r1)" using mk [OF k] by simp
    then show ?thesis using fk [OF True] by (simp add: bindR_def)
  next
    case False
    then have "fst (m (trunc k r)) = Inl BufferExhaustedError" using mk [OF k] by simp
    moreover have "\<not> position r2 \<le> k" using False r2 by simp
    ultimately show ?thesis by (auto simp: bindR_def split: prod.splits sum.splits)
  qed
  ultimately show "(\<exists>n. r2 = advance n r) \<and>
        (\<forall>k. position r \<le> k \<longrightarrow>
           (if position r2 \<le> k then bindR m f (trunc k r) = (Inr w, trunc k r2)
            else fst (bindR m f (trunc k r)) = Inl BufferExhaustedError))"
    by blast
qed

lemma prefix_stable_read: "prefix_stable (read n)"
  unfolding prefix_stable_def
proof (intro allI impI)
  fix r v r'
  assume run: "read n r = (Inr v, r')"
  then have le: "position r + n \<le> length (buffer r)" and r': "r' = advance n r"
    and v: "v = take n (drop (position r) (buffer r))"
    by (auto simp: read_def advance_def subarray_def split: if_splits)
  have "if position r' \<le> k then read n (trunc k r) = (Inr v, trunc k r')
        else fst (read n (trunc k r)) = Inl BufferExhaustedError" if "position r \<le> k" for k
  proof (cases "position r + n \<le> k")
    case True
    have "take n (drop (position r) (take k (buffer r))) = take n (drop (position r) (buffer r))"
      using True by (simp add: drop_take min_def)
    then show ?thesis using True le r' v
      by (simp add: read_def subarray_def advance_def trunc_def)
  next
    case False
    then show ?thesis using r' by (simp add: read_def)
  qed
  then show "(\<exists>n. r' = advance n r) \<and>
        (\<forall>k. position r \<le> k \<longrightarrow>
           (if position r' \<le> k then read n (trunc k r) = (Inr v, trunc k r')
            else fst (read n (trunc k r)) = Inl BufferExhaustedError))"
    using r' by blast
qed


lemma prefix_stable_dep:
  assumes M: "\<And>x. prefix_stable (M x)" and m: "\<And>r. m r = M (g r) r"
    and g: "\<And>k r. g (trunc k r) = g r"
  shows "prefix_stable m"
  using M unfolding prefix_stable_def m g by blast

lemma prefix_stable_readUint8: "prefix_stable readUint8"
  unfolding readUint8_def by (intro prefix_stable_bind prefix_stable_read prefix_stable_returnR)

lemma prefix_stable_readInt8: "prefix_stable readInt8"
  unfolding readInt8_def by (intro prefix_stable_bind prefix_stable_read prefix_stable_returnR)

lemma prefix_stable_readBool: "prefix_stable readBool"
  unfolding readBool_def by (intro prefix_stable_bind prefix_stable_readInt8 prefix_stable_returnR)

lemma prefix_stable_readUint16: "prefix_stable readUint16"
  by (rule prefix_stable_dep [where g = littleEndian
        and M = "\<lambda>le. bindR (read 2) (\<lambda>data. returnR (if le then uintLE data else uintBE data))"])
     (simp_all add: readUint16_def prefix_stable_bind prefix_stable_read prefix_stable_returnR)

lemma prefix_stable_readUint64: "prefix_stable readUint64"
  by (rule prefix_stable_dep [where g = littleEndian
        and M = "\<lambda>le. bindR (read 8) (\<lambda>data. returnR (if le then uintLE data else uintBE data))"])
     (simp_all add: readUint64_def prefix_stable_bind prefix_stable_read prefix_stable_returnR)

lemma prefix_stable_readChar: "prefix_stable (readChar rt)"
  by (rule prefix_stable_dep [where g = encoding
        and M = "\<lambda>e. bindR (read 1) (\<lambda>data. returnR (case e of Some enc \<Rightarrow> Str (bufToString rt enc data)
                                        | None \<Rightarrow> Buf data))"])
     (simp_all add: readChar_def prefix_stable_bind prefix_stable_read prefix_stable_returnR)

lemma prefix_stable_toLowerCase: "prefix_stable (toLowerCase rt v)"
  by (cases v) (simp_all add: toLowerCase_def prefix_stable_returnR prefix_stable_throwR)

lemma prefix_stable_readCString: "prefix_stable (readCString rt)"
  unfolding prefix_stable_def
proof (intro allI impI)
  fix r v r'
  assume run: "readCString rt r = (Inr v, r')"
  define s where "s = takeWhile (\<lambda>b. b \<noteq> 0) (remaining r)"
  from run have z: "0 \<in> set (remaining r)" and r': "r' = advance (length s + 1) r"
    and v: "v = (case encoding r of Some enc \<Rightarrow> Str (bufToString rt enc s) | None \<Rightarrow> Buf s)"
    by (auto simp: readCString_rem Let_def s_def split: if_splits option.splits)
  obtain rest where rem: "remaining r = s @ 0 # rest"
    using split_at_zero [OF z] unfolding s_def by blast
  have s0: "0 \<notin> set s" unfolding s_def by (auto dest: set_takeWhileD)
  have "if position r' \<le> k then readCString rt (trunc k r) = (Inr v, trunc k r')
        else fst (readCString rt (trunc k r)) = Inl BufferExhaustedError" if k: "position r \<le> k" for k
  proof (cases "position r + length s + 1 \<le> k")
    case True
    define j where "j = k - position r - length s - 1"
    have "k - position r = length s + Suc j" using True by (simp add: j_def)
    then have "remaining (trunc k r) = s @ 0 # take j rest"
      using k by (simp add: remaining_trunc rem)
    then show ?thesis using True s0 r' v
      by (simp add: readCString_rem Let_def)
  next
    case False
    then have "remaining (trunc k r) = take (k - position r) s"
      using k by (simp add: remaining_trunc rem)
    moreover have "0 \<notin> set (take (k - position r) s)" using s0 by (auto dest: in_set_takeD)
    ultimately show ?thesis using False r'
      by (simp add: readCString_rem Let_def)
  qed
  then show "(\<exists>n. r' = advance n r) \<and>
        (\<forall>k. position r \<le> k \<longrightarrow>
           (if position r' \<le> k then readCString rt (trunc k r) = (Inr v, trunc k r')
            else fst (readCString rt (trunc k r)) = Inl BufferExhaustedError))"
    using r' by blast
qed

lemmas prefix_stable_intros = prefix_stable_bind prefix_stable_if prefix_stable_returnR
  prefix_stable_throwR prefix_stable_readUint8 prefix_stable_readBool prefix_stable_readUint16
  prefix_stable_readUint64 prefix_stable_readChar prefix_stable_toLowerCase
  prefix_stable_readCString

lemma trunc_ByteReader: "trunc k (ByteReader bs le eo) = ByteReader (take k bs) le eo"
  by (simp add: trunc_def ByteReader_def)

text \<open>
  The record without what the flags byte and the tail contribute; and the part of
  \<^verbatim>\<open>parseSource\<close> after the flags byte, which reads the optional fields into the record
  built so far. \<open>parseSource\<close> is the reads of the fixed part, the guarded read of the flags
  byte, and this tail.
\<close>

definition clearFlags :: "SourceInfo \<Rightarrow> SourceInfo" where
  "clearFlags v = v\<lparr>edf := 0, port := None, steamId := None, stvPort := None,
                     stvName := None, keywords' := None, gameId := None\<rparr>"

definition optional_tail :: "jsrt \<Rightarrow> int \<Rightarrow> SourceInfo \<Rightarrow> SourceInfo rd" where
  "optional_tail rt edf' info0 =
     bindR (if (edf' AND 0x80) \<noteq> 0
            then bindR readUint16 (\<lambda>v. returnR (info0\<lparr>port := Some v\<rparr>))
            else returnR info0) (\<lambda>info.
     bindR (if (edf' AND 0x10) \<noteq> 0
            then bindR readUint64 (\<lambda>v. returnR (info\<lparr>steamId := Some v\<rparr>))
            else returnR info) (\<lambda>info.
     bindR (if (edf' AND 0x40) \<noteq> 0
            then bindR readUint16 (\<lambda>p.
                 bindR (readCString rt) (\<lambda>n.
                 returnR (info\<lparr>stvPort := Some p, stvName := Some n\<rparr>)))
            else returnR info) (\<lambda>info.
     bindR (if (edf' AND 0x20) \<noteq> 0
            then bindR (readCString rt) (\<lambda>v. returnR (info\<lparr>keywords' := Some v\<rparr>))
            else returnR info) (\<lambda>info.
     bindR (if (edf' AND 0x01) \<noteq> 0
            then bindR readUint64 (\<lambda>v. returnR (info\<lparr>gameId := Some v\<rparr>))
            else returnR info) (\<lambda>info.
     returnR info)))))"

lemma parseSource_alt:
  "parseSource rt png =
     bindR readUint8 (\<lambda>protocol'.
     bindR (readCString rt) (\<lambda>serverName'.
     bindR (readCString rt) (\<lambda>mapName'.
     bindR (readCString rt) (\<lambda>folder'.
     bindR (readCString rt) (\<lambda>game'.
     bindR readUint16 (\<lambda>appId'.
     bindR readUint8 (\<lambda>playerCount'.
     bindR readUint8 (\<lambda>maxPlayers'.
     bindR readUint8 (\<lambda>botCount'.
     bindR (bindR (readChar rt) (toLowerCase rt)) (\<lambda>serverType'.
     bindR (bindR (readChar rt) (toLowerCase rt)) (\<lambda>platform0.
     bindR readBool (\<lambda>passwordProtected'.
     bindR readBool (\<lambda>vacEnabled'.
     bindR (readCString rt) (\<lambda>version'.
     bindR (tryCatch readUint8
              (\<lambda>error. if \<not> instanceofBufferExhaustedError error then throwR error
                       else returnR 0)) (\<lambda>edf'.
     optional_tail rt edf'
       \<lparr>protocol = protocol', serverName = serverName', mapName = mapName',
        folder = folder', game = game', appId = appId',
        playerCount = playerCount', maxPlayers = maxPlayers', botCount = botCount',
        serverType = serverType',
        platform = (if platform0 = [0x6F] then [0x6D] else platform0),
        passwordProtected = passwordProtected', vacEnabled = vacEnabled',
        version = version', edf = edf', ping = png,
        port = None, steamId = None, stvPort = None, stvName = None,
        keywords' = None, gameId = None\<rparr>)))))))))))))))"
  by (simp add: parseSource_def optional_tail_def Let_def)

lemma prefix_stable_optional_tail: "prefix_stable (optional_tail rt e info)"
  unfolding optional_tail_def by (intro prefix_stable_intros)

lemma optional_tail_0: "optional_tail rt 0 info q = (Inr info, q)"
  by (simp add: optional_tail_def bindR_def returnR_def)

definition keeps :: "SourceInfo \<Rightarrow> SourceInfo rd \<Rightarrow> bool" where
  "keeps v0 m \<longleftrightarrow> (\<forall>q w q'. m q = (Inr w, q') \<longrightarrow> clearFlags w = v0)"

lemma keeps_returnR: "clearFlags w = v0 \<Longrightarrow> keeps v0 (returnR w)"
  by (simp add: keeps_def returnR_def)

lemma keeps_if: "keeps v0 m1 \<Longrightarrow> keeps v0 m2 \<Longrightarrow> keeps v0 (if c then m1 else m2)"
  by simp

lemma bindR_Inr:
  assumes "bindR m f q = (Inr w, q')"
  obtains v r1 where "m q = (Inr v, r1)" "f v r1 = (Inr w, q')"
  using assms by (auto simp: bindR_def split: prod.splits sum.splits)

lemma keeps_read:
  assumes "\<And>x. keeps v0 (f x)"
  shows "keeps v0 (bindR m f)"
  unfolding keeps_def
proof (intro allI impI)
  fix q w q'
  assume "bindR m f q = (Inr w, q')"
  then obtain v r1 where "f v r1 = (Inr w, q')" by (rule bindR_Inr)
  then show "clearFlags w = v0" using assms [of v] unfolding keeps_def by blast
qed

lemma keeps_bind:
  assumes "keeps v0 m" and "\<And>w. clearFlags w = v0 \<Longrightarrow> keeps v0 (f w)"
  shows "keeps v0 (bindR m f)"
  unfolding keeps_def
proof (intro allI impI)
  fix q w q'
  assume "bindR m f q = (Inr w, q')"
  then obtain v r1 where m: "m q = (Inr v, r1)" and f: "f v r1 = (Inr w, q')" by (rule bindR_Inr)
  have "clearFlags v = v0" using assms(1) m unfolding keeps_def by blast
  then have "keeps v0 (f v)" by (rule assms(2))
  then show "clearFlags w = v0" using f unfolding keeps_def by blast
qed

lemma clearFlags_updates [simp]:
  "clearFlags (w\<lparr>port := a\<rparr>) = clearFlags w"
  "clearFlags (w\<lparr>steamId := b\<rparr>) = clearFlags w"
  "clearFlags (w\<lparr>stvPort := c\<rparr>) = clearFlags w"
  "clearFlags (w\<lparr>stvName := d\<rparr>) = clearFlags w"
  "clearFlags (w\<lparr>keywords' := e\<rparr>) = clearFlags w"
  "clearFlags (w\<lparr>gameId := f\<rparr>) = clearFlags w"
  "clearFlags (w\<lparr>edf := g\<rparr>) = clearFlags w"
  by (simp_all add: clearFlags_def)

lemma keeps_optional_tail: "keeps (clearFlags info) (optional_tail rt e info)"
  unfolding optional_tail_def
  apply (rule keeps_bind)
   apply (intro keeps_if keeps_read keeps_returnR; simp)
  apply (rule keeps_bind)
   apply (intro keeps_if keeps_read keeps_returnR; simp)
  apply (rule keeps_bind)
   apply (intro keeps_if keeps_read keeps_returnR; simp)
  apply (rule keeps_bind)
   apply (intro keeps_if keeps_read keeps_returnR; simp)
  apply (rule keeps_bind)
   apply (intro keeps_if keeps_read keeps_returnR; simp)
  apply (rule keeps_returnR)
  apply simp
  done


definition only_flags_recovered :: "SourceInfo rd \<Rightarrow> bool" where
  "only_flags_recovered m \<longleftrightarrow>
     (\<forall>r v r'. m r = (Inr v, r') \<longrightarrow>
        (\<exists>e. position r \<le> e \<and>
           (\<forall>k. position r \<le> k \<and> k < position r' \<longrightarrow>
              (if k = e
               then fst (m (trunc k r)) = Inr (clearFlags v) \<and> position (snd (m (trunc k r))) = k
               else fst (m (trunc k r)) = Inl BufferExhaustedError))))"

lemma only_flags_bind:
  assumes m: "prefix_stable m" and f: "\<And>v. only_flags_recovered (f v)"
  shows "only_flags_recovered (bindR m f)"
  unfolding only_flags_recovered_def
proof (intro allI impI)
  fix r w r2
  assume run: "bindR m f r = (Inr w, r2)"
  then obtain v r1 where m1: "m r = (Inr v, r1)" and f1: "f v r1 = (Inr w, r2)"
    by (rule bindR_Inr)
  from m m1 obtain n1 where r1: "r1 = advance n1 r"
    and mk: "\<And>k. position r \<le> k \<Longrightarrow>
           (if position r1 \<le> k then m (trunc k r) = (Inr v, trunc k r1)
            else fst (m (trunc k r)) = Inl BufferExhaustedError)"
    unfolding prefix_stable_def by blast
  from f [of v] f1 obtain e where e: "position r1 \<le> e"
    and fk: "\<And>k. position r1 \<le> k \<Longrightarrow> k < position r2 \<Longrightarrow>
              (if k = e
               then fst (f v (trunc k r1)) = Inr (clearFlags w)
                    \<and> position (snd (f v (trunc k r1))) = k
               else fst (f v (trunc k r1)) = Inl BufferExhaustedError)"
    unfolding only_flags_recovered_def by blast
  have "if k = e
        then fst (bindR m f (trunc k r)) = Inr (clearFlags w)
             \<and> position (snd (bindR m f (trunc k r))) = k
        else fst (bindR m f (trunc k r)) = Inl BufferExhaustedError"
    if k: "position r \<le> k" "k < position r2" for k
  proof (cases "position r1 \<le> k")
    case True
    then have "m (trunc k r) = (Inr v, trunc k r1)" using mk [OF k(1)] by simp
    then have eq: "bindR m f (trunc k r) = f v (trunc k r1)" by (simp add: bindR_def)
    show ?thesis unfolding eq by (rule fk [OF True k(2)])
  next
    case False
    then have "fst (m (trunc k r)) = Inl BufferExhaustedError" using mk [OF k(1)] by simp
    then have "fst (bindR m f (trunc k r)) = Inl BufferExhaustedError"
      by (auto simp: bindR_def split: prod.splits sum.splits)
    moreover have "k \<noteq> e" using False e by simp
    ultimately show ?thesis by simp
  qed
  moreover have "position r \<le> e" using e r1 by simp
  ultimately show "\<exists>e. position r \<le> e \<and>
           (\<forall>k. position r \<le> k \<and> k < position r2 \<longrightarrow>
              (if k = e
               then fst (bindR m f (trunc k r)) = Inr (clearFlags w)
                    \<and> position (snd (bindR m f (trunc k r))) = k
               else fst (bindR m f (trunc k r)) = Inl BufferExhaustedError))"
    by blast
qed

lemma only_flags_tryCatch:
  assumes F: "\<And>e. clearFlags (F e) = F 0"
  shows "only_flags_recovered
           (bindR (tryCatch readUint8
                    (\<lambda>error. if \<not> instanceofBufferExhaustedError error then throwR error
                             else returnR 0))
                  (\<lambda>edf'. optional_tail rt edf' (F edf')))"
  unfolding only_flags_recovered_def
proof (intro allI impI)
  fix r w r2
  let ?B = "\<lambda>edf'. optional_tail rt edf' (F edf')"
  let ?m = "bindR (tryCatch readUint8
                    (\<lambda>error. if \<not> instanceofBufferExhaustedError error then throwR error
                             else returnR 0)) ?B"
  assume h: "?m r = (Inr w, r2)"
  have step: "?m q = (if length (remaining q) < 1 then ?B 0 q
                      else ?B (uintLE (take 1 (remaining q))) (advance 1 q))" for q
    by (simp add: bindR_def tryCatch_def readUint8_rem returnR_def)
  have "if k = position r
        then fst (?m (trunc k r)) = Inr (clearFlags w) \<and> position (snd (?m (trunc k r))) = k
        else fst (?m (trunc k r)) = Inl BufferExhaustedError"
    if k: "position r \<le> k" "k < position r2" for k
  proof (cases "length (remaining r) < 1")
    case True
    then have "?m r = ?B 0 r" by (simp only: step if_True)
    then have "r2 = r" using h by (simp add: optional_tail_0)
    then have False using k by simp
    then show ?thesis ..
  next
    case False
    let ?e = "uintLE (take 1 (remaining r))"
    have run: "optional_tail rt ?e (F ?e) (advance 1 r) = (Inr w, r2)"
      using h False by (simp only: step if_False)
    have cw: "clearFlags w = F 0"
      using keeps_optional_tail [of "F ?e" rt ?e] run F [of ?e] unfolding keeps_def by metis
    show ?thesis
    proof (cases "k = position r")
      case True
      then have "length (remaining (trunc k r)) < 1" by (simp add: remaining_trunc)
      then have "?m (trunc k r) = ?B 0 (trunc k r)" by (simp only: step if_True)
      then show ?thesis using True cw by (simp add: optional_tail_0)
    next
      case ne: False
      then have k1: "position (advance 1 r) \<le> k" using k by simp
      have rem: "remaining (trunc k r) = take (k - position r) (remaining r)"
        using k by (simp add: remaining_trunc)
      have "\<not> length (remaining (trunc k r)) < 1"
        and "take 1 (remaining (trunc k r)) = take 1 (remaining r)"
        using False ne k unfolding rem by (auto simp: min_def)
      then have "?m (trunc k r) = optional_tail rt ?e (F ?e) (trunc k (advance 1 r))"
        by (simp only: step if_False trunc_simps)
      moreover have "fst (optional_tail rt ?e (F ?e) (trunc k (advance 1 r))) = Inl BufferExhaustedError"
        using prefix_stable_optional_tail [of rt ?e "F ?e"] run k1 k
        unfolding prefix_stable_def by (metis not_le)
      ultimately show ?thesis using ne by simp
    qed
  qed
  then show "\<exists>e. position r \<le> e \<and>
           (\<forall>k. position r \<le> k \<and> k < position r2 \<longrightarrow>
              (if k = e
               then fst (?m (trunc k r)) = Inr (clearFlags w)
                    \<and> position (snd (?m (trunc k r))) = k
               else fst (?m (trunc k r)) = Inl BufferExhaustedError))"
    by blast
qed

lemma parseSource_only_flags: "only_flags_recovered (parseSource rt png)"
  unfolding parseSource_alt
  by (intro only_flags_bind only_flags_tryCatch prefix_stable_intros)
     (simp add: clearFlags_def)


lemma parseSource_truncations:
  assumes "fst (parseSource rt png (ByteReader bs le eo)) = Inr info"
  shows "\<exists>e. \<forall>k. k < position (snd (parseSource rt png (ByteReader bs le eo))) \<longrightarrow>
           (if k = e
            then fst (parseSource rt png (ByteReader (take k bs) le eo)) = Inr (clearFlags info)
                 \<and> position (snd (parseSource rt png (ByteReader (take k bs) le eo))) = k
            else fst (parseSource rt png (ByteReader (take k bs) le eo)) = Inl BufferExhaustedError)"
proof -
  let ?r = "ByteReader bs le eo"
  have run: "parseSource rt png ?r = (Inr info, snd (parseSource rt png ?r))"
    using assms by (metis prod.collapse)
  from parseSource_only_flags [of rt png] run obtain e where
    "\<forall>k. position ?r \<le> k \<and> k < position (snd (parseSource rt png ?r)) \<longrightarrow>
              (if k = e
               then fst (parseSource rt png (trunc k ?r)) = Inr (clearFlags info)
                    \<and> position (snd (parseSource rt png (trunc k ?r))) = k
               else fst (parseSource rt png (trunc k ?r)) = Inl BufferExhaustedError)"
    unfolding only_flags_recovered_def by blast
  then show ?thesis by (auto simp: trunc_ByteReader intro!: exI [of _ e])
qed

lemma wire_truncations:
  assumes z: "zeroFree x" "0 \<notin> set (w_stvName t)" "0 \<notin> set (w_keywords t)"
    and k: "k < length (wireFixed x @ [flagsByte fl] @ wireTail fl t)"
  shows "fst (parseSource rt png
            (ByteReader (take k (wireFixed x @ [flagsByte fl] @ wireTail fl t)) True (Some enc)))
         = (if k = length (wireFixed x) then Inr (fixedInfo rt enc png x)
            else Inl BufferExhaustedError)"
proof -
  let ?bs = "wireFixed x @ [flagsByte fl] @ wireTail fl t"
  let ?p = "\<lambda>b. parseSource rt png (ByteReader b True (Some enc))"
  have full: "\<exists>info. fst (?p ?bs) = Inr info" and pos: "position (snd (?p ?bs)) = length ?bs"
    using parseSource_tail_run [OF z, of rt png fl enc] by simp_all
  then obtain info where info: "fst (?p ?bs) = Inr info" by blast
  from parseSource_truncations [OF info] obtain e where
    e: "\<And>j. j < length ?bs \<Longrightarrow>
           (if j = e then fst (?p (take j ?bs)) = Inr (clearFlags info)
                       \<and> position (snd (?p (take j ?bs))) = j
            else fst (?p (take j ?bs)) = Inl BufferExhaustedError)"
    unfolding pos by blast
  have fx: "fst (?p (take (length (wireFixed x)) ?bs)) = Inr (fixedInfo rt enc png x)"
    using parseSource_fixed_run [OF z(1), of rt png enc] by simp
  have "length (wireFixed x) < length ?bs" by simp
  from e [OF this] fx have ee: "e = length (wireFixed x)"
    by (auto split: if_splits)
  show ?thesis
  proof (cases "k = length (wireFixed x)")
    case True
    then show ?thesis using fx by simp
  next
    case False
    then show ?thesis using e [OF k] ee by simp
  qed
qed

text \<open>
  C7. A response that ends right after the version string parses, in a text mode \<open>enc\<close>,
  to the record of its fixed part with \<open>edf = 0\<close> and no optional field. Of a response made
  of a fixed part, a flags byte and its tail, the truncation right before the flags byte is
  the only one that parses, to that same record: every other truncation, inside the fixed
  part (the version string included) or after the flags byte, throws
  \<^verbatim>\<open>BufferExhaustedError\<close>. And for any bytes that parse, in any mode, at most one truncation
  inside the bytes consumed parses, to the result with the flags and the optional fields
  cleared and with every byte consumed; all the others throw \<^verbatim>\<open>BufferExhaustedError\<close>.
\<close>

theorem missing_flags_tolerated:
  "(zeroFree x \<longrightarrow>
      fst (parseSource rt png (ByteReader (wireFixed x) True (Some enc)))
        = Inr (fixedInfo rt enc png x)
      \<and> edf (fixedInfo rt enc png x) = 0
      \<and> port (fixedInfo rt enc png x) = None \<and> steamId (fixedInfo rt enc png x) = None
      \<and> stvPort (fixedInfo rt enc png x) = None \<and> stvName (fixedInfo rt enc png x) = None
      \<and> keywords' (fixedInfo rt enc png x) = None \<and> gameId (fixedInfo rt enc png x) = None)
   \<and> (zeroFree x \<and> 0 \<notin> set (w_stvName t) \<and> 0 \<notin> set (w_keywords t) \<longrightarrow>
        (\<forall>k. k < length (wireFixed x @ [flagsByte fl] @ wireTail fl t) \<longrightarrow>
           fst (parseSource rt png
                 (ByteReader (take k (wireFixed x @ [flagsByte fl] @ wireTail fl t))
                    True (Some enc)))
           = (if k = length (wireFixed x) then Inr (fixedInfo rt enc png x)
              else Inl BufferExhaustedError)))
   \<and> (fst (parseSource rt png (ByteReader bs le eo)) = Inr info \<longrightarrow>
        (\<exists>e. \<forall>k. k < position (snd (parseSource rt png (ByteReader bs le eo))) \<longrightarrow>
           (if k = e
            then fst (parseSource rt png (ByteReader (take k bs) le eo))
                   = Inr (info\<lparr>edf := 0, port := None, steamId := None, stvPort := None,
                               stvName := None, keywords' := None, gameId := None\<rparr>)
                 \<and> position (snd (parseSource rt png (ByteReader (take k bs) le eo))) = k
            else fst (parseSource rt png (ByteReader (take k bs) le eo))
                   = Inl BufferExhaustedError)))"
proof (intro conjI impI allI)
  assume z: "zeroFree x"
  show "fst (parseSource rt png (ByteReader (wireFixed x) True (Some enc))) = Inr (fixedInfo rt enc png x)"
    using parseSource_fixed_run [OF z, of rt png enc] by simp
next
  fix k
  assume z: "zeroFree x \<and> 0 \<notin> set (w_stvName t) \<and> 0 \<notin> set (w_keywords t)"
    and k: "k < length (wireFixed x @ [flagsByte fl] @ wireTail fl t)"
  show "fst (parseSource rt png
                 (ByteReader (take k (wireFixed x @ [flagsByte fl] @ wireTail fl t))
                    True (Some enc)))
           = (if k = length (wireFixed x) then Inr (fixedInfo rt enc png x)
              else Inl BufferExhaustedError)"
    using z k by (intro wire_truncations) simp_all
next
  assume "fst (parseSource rt png (ByteReader bs le eo)) = Inr info"
  from parseSource_truncations [OF this]
  show "\<exists>e. \<forall>k. k < position (snd (parseSource rt png (ByteReader bs le eo))) \<longrightarrow>
           (if k = e
            then fst (parseSource rt png (ByteReader (take k bs) le eo))
                   = Inr (info\<lparr>edf := 0, port := None, steamId := None, stvPort := None,
                               stvName := None, keywords' := None, gameId := None\<rparr>)
                 \<and> position (snd (parseSource rt png (ByteReader (take k bs) le eo))) = k
            else fst (parseSource rt png (ByteReader (take k bs) le eo))
                   = Inl BufferExhaustedError)"
    unfolding clearFlags_def .
qed (simp_all add: fixedInfo_def)


theorem missing_flags_tolerated_witness:
  "zeroFree scenario \<and> 0 \<notin> set (w_stvName scenarioTail) \<and> 0 \<notin> set (w_keywords scenarioTail)
   \<and> fst (parseSource latin1_rt 0 (ByteReader (wireFixed scenario) True (Some ''latin1'')))
       = Inr (fixedInfo latin1_rt ''latin1'' 0 scenario)
   \<and> edf (fixedInfo latin1_rt ''latin1'' 0 scenario) = 0
   \<and> port (fixedInfo latin1_rt ''latin1'' 0 scenario) = None
   \<and> serverType (fixedInfo latin1_rt ''latin1'' 0 scenario) = [0x64]
   \<and> platform (fixedInfo latin1_rt ''latin1'' 0 scenario) = [0x6D]
   \<and> length (wireFixed scenario) = 41
   \<and> wireFixed scenario
       @ [flagsByte \<lparr>has_port = True, has_steam_id = False, has_stv = False,
                     has_keywords = False, has_game_id = False\<rparr>]
       @ wireTail \<lparr>has_port = True, has_steam_id = False, has_stv = False,
                   has_keywords = False, has_game_id = False\<rparr> scenarioTail
       = wireFixed scenario @ [0x80, 0x87, 0x69]
   \<and> fst (parseSource latin1_rt 0
         (ByteReader (take 39 (wireFixed scenario @ [0x80, 0x87, 0x69])) True (Some ''latin1'')))
       = Inl BufferExhaustedError
   \<and> fst (parseSource latin1_rt 0
         (ByteReader (take 40 (wireFixed scenario @ [0x80, 0x87, 0x69])) True (Some ''latin1'')))
       = Inl BufferExhaustedError
   \<and> fst (parseSource latin1_rt 0
         (ByteReader (take 41 (wireFixed scenario @ [0x80, 0x87, 0x69])) True (Some ''latin1'')))
       = Inr (fixedInfo latin1_rt ''latin1'' 0 scenario)
   \<and> fst (parseSource latin1_rt 0
         (ByteReader (take 42 (wireFixed scenario @ [0x80, 0x87, 0x69])) True (Some ''latin1'')))
       = Inl BufferExhaustedError
   \<and> fst (parseSource latin1_rt 0
         (ByteReader (take 43 (wireFixed scenario @ [0x80, 0x87, 0x69])) True (Some ''latin1'')))
       = Inl BufferExhaustedError
   \<and> fst (parseSource latin1_rt 0
         (ByteReader (wireFixed scenario @ [0x80, 0x87, 0x69]) True (Some ''latin1'')))
       = Inr ((fixedInfo latin1_rt ''latin1'' 0 scenario)\<lparr>edf := 128, port := Some 27015\<rparr>)
   \<and> position (snd (parseSource latin1_rt 0
         (ByteReader (wireFixed scenario @ [0x80, 0x87, 0x69]) True (Some ''latin1'')))) = 44
   \<and> (\<exists>e. \<forall>k. k < 44 \<longrightarrow>
           (if k = e
            then fst (parseSource latin1_rt 0
                   (ByteReader (take k (wireFixed scenario @ [0x80, 0x87, 0x69])) True (Some ''latin1'')))
                   = Inr (fixedInfo latin1_rt ''latin1'' 0 scenario)
                 \<and> position (snd (parseSource latin1_rt 0
                   (ByteReader (take k (wireFixed scenario @ [0x80, 0x87, 0x69])) True (Some ''latin1'')))) = k
            else fst (parseSource latin1_rt 0
                   (ByteReader (take k (wireFixed scenario @ [0x80, 0x87, 0x69])) True (Some ''latin1'')))
                   = Inl BufferExhaustedError))"
proof -
  let ?fl = "\<lparr>has_port = True, has_steam_id = False, has_stv = False,
              has_keywords = False, has_game_id = False\<rparr>"
  let ?bs = "wireFixed scenario @ [0x80, 0x87, 0x69]"
  let ?info = "(fixedInfo latin1_rt ''latin1'' 0 scenario)\<lparr>edf := 128, port := Some 27015\<rparr>"
  have z: "zeroFree scenario" "0 \<notin> set (w_stvName scenarioTail)" "0 \<notin> set (w_keywords scenarioTail)"
    by (simp_all add: scenario_wire scenarioTail_def)
  have bs: "wireFixed scenario @ [flagsByte ?fl] @ wireTail ?fl scenarioTail = ?bs"
    by (simp add: scenarioTail_def flagsByte_def wireTail_def)
  have fx: "serverType (fixedInfo latin1_rt ''latin1'' 0 scenario) = [0x64]"
    "platform (fixedInfo latin1_rt ''latin1'' 0 scenario) = [0x6D]"
    by (simp_all add: fixedInfo_def scenario_def)
  have cl: "?info\<lparr>edf := 0, port := None, steamId := None, stvPort := None,
                   stvName := None, keywords' := None, gameId := None\<rparr>
             = fixedInfo latin1_rt ''latin1'' 0 scenario"
    by (simp add: fixedInfo_def)
  note T = missing_flags_tolerated [where x = scenario and rt = latin1_rt and png = 0
      and enc = "''latin1''" and t = scenarioTail and fl = ?fl and bs = ?bs and le = True
      and eo = "Some ''latin1''" and info = ?info]
  from T z have p1: "fst (parseSource latin1_rt 0 (ByteReader (wireFixed scenario) True (Some ''latin1'')))
       = Inr (fixedInfo latin1_rt ''latin1'' 0 scenario)"
    "edf (fixedInfo latin1_rt ''latin1'' 0 scenario) = 0"
    "port (fixedInfo latin1_rt ''latin1'' 0 scenario) = None"
    by simp_all
  from T z have p2: "k < 44 \<Longrightarrow>
      fst (parseSource latin1_rt 0 (ByteReader (take k ?bs) True (Some ''latin1'')))
        = (if k = 41 then Inr (fixedInfo latin1_rt ''latin1'' 0 scenario)
           else Inl BufferExhaustedError)" for k
    unfolding bs by (simp add: scenario_length)
  from T scenario_port_run have p3: "\<exists>e. \<forall>k. k < 44 \<longrightarrow>
           (if k = e
            then fst (parseSource latin1_rt 0 (ByteReader (take k ?bs) True (Some ''latin1'')))
                   = Inr (fixedInfo latin1_rt ''latin1'' 0 scenario)
                 \<and> position (snd (parseSource latin1_rt 0
                      (ByteReader (take k ?bs) True (Some ''latin1'')))) = k
            else fst (parseSource latin1_rt 0 (ByteReader (take k ?bs) True (Some ''latin1'')))
                   = Inl BufferExhaustedError)"
    unfolding cl by simp
  show ?thesis
    using z bs fx p1 p2 [of 39] p2 [of 40] p2 [of 41] p2 [of 42] p2 [of 43] p3
      scenario_port_run scenario_length
    by simp
qed

text \<open>
  C9, where the code departs from it. With the raw mode (\<open>encoding = None\<close>),
  \<^verbatim>\<open>readChar\<close> returns a \<^verbatim>\<open>Buffer\<close> and \<^verbatim>\<open>parseSource\<close> calls \<^verbatim>\<open>toLowerCase\<close> on it: the parse
  of the info response never returns a record in that mode, and on a well-formed response
  it throws a \<open>TypeError\<close> where every text mode returns the record.
\<close>

theorem raw_mode_info_parse_fails:
  "fst (parseSource rt png (ByteReader bs le None)) \<noteq> Inr info
   \<and> (zeroFree x \<longrightarrow>
        fst (parseSource rt png (ByteReader (wireFixed x @ rest) True None)) = Inl TypeError
        \<and> fst (parseSource rt png (ByteReader (wireFixed x) True (Some enc)))
            = Inr (fixedInfo rt enc png x))"
proof (intro conjI impI)
  show "fst (parseSource rt png (ByteReader bs le None)) \<noteq> Inr info"
    by (simp add: parseSource_def parse_steps Let_def)
next
  assume z: "zeroFree x"
  then show "fst (parseSource rt png (ByteReader (wireFixed x @ rest) True None)) = Inl TypeError"
    by (simp add: parseSource_def wireFixed_def zeroFree_def parse_steps Let_def)
  show "fst (parseSource rt png (ByteReader (wireFixed x) True (Some enc))) = Inr (fixedInfo rt enc png x)"
    using parseSource_fixed_run [OF z, of rt png enc] by simp
qed

theorem raw_mode_info_parse_fails_witness:
  "zeroFree scenario
   \<and> fst (parseSource latin1_rt 0 (ByteReader (wireFixed scenario @ [0]) True None)) = Inl TypeError
   \<and> fst (parseSource latin1_rt 0 (ByteReader (wireFixed scenario @ [0]) True (Some ''latin1'')))
       = Inr (fixedInfo latin1_rt ''latin1'' 0 scenario)"
  using raw_mode_info_parse_fails [of latin1_rt 0 "[]" True "fixedInfo latin1_rt ''latin1'' 0 scenario" scenario "[0]" "''latin1''"]
    parseSource_tail_run [of scenario scenarioTail latin1_rt 0
      "\<lparr>has_port = False, has_steam_id = False, has_stv = False,
        has_keywords = False, has_game_id = False\<rparr>" "''latin1''"]
    scenario_wire(2)
  by (simp add: scenarioTail_def flagsByte_def wireTail_def fixedInfo_def)

section \<open>The challenge handshake\<close>

text \<open>
  One round of \<open>request\<close> against a reply that starts with the challenge type byte, and the
  whole run against a server whose every reply is the type byte and at least four bytes of
  challenge: the call fails after \<open>maxRetries - retries + 1\<close> requests, and closes the
  transport only if the failing call is the outermost one, which needs a maximum of 0.
\<close>

lemma uintLE_bounds: "0 \<le> uintLE bs \<and> uintLE bs < 256 ^ length bs"
proof (induction bs)
  case Nil
  show ?case by simp
next
  case (Cons b bs)
  have "0 \<le> uint b" "uint b < 256" using uint_bounded [of b] by simp_all
  then show ?case using Cons by simp
qed

lemma challenge_step:
  assumes "\<not> c_closed c" "\<not> sock_closed c"
    and "serializeRequest handler challenge = Inr pkt"
    and "net (requests c @ [pkt]) = Response ms (0x41 # rest)"
  shows "request maxRetries net handler challenge retries c =
     (let c1 = c\<lparr>requests := requests c @ [pkt]\<rparr> in
      if retries \<ge> maxRetries then
        (Inl (BrokenMessageError KeepsSendingChallenge), if retries = 0 then close c1 else c1)
      else if length rest < 4 then (Inl BufferExhaustedError, c1)
      else request maxRetries net handler (uintLE (take 4 rest)) (retries + 1) c1)"
  using assms
  by (subst request.simps)
     (simp add: socket_request_def Let_def readUint8_rem readUint32_rem A2S_CHALLENGE_RESPONSE_def)

lemma challenge_loop:
  assumes net: "\<And>h. \<exists>ms rest. net h = Response ms (0x41 # rest) \<and> 4 \<le> length rest"
    and ser: "\<And>ch. 0 \<le> ch \<Longrightarrow> ch < 2 ^ 32 \<Longrightarrow> \<exists>p. serializeRequest handler ch = Inr p"
  shows "\<not> c_closed c \<Longrightarrow> \<not> sock_closed c \<Longrightarrow> 0 \<le> challenge \<Longrightarrow> challenge < 2 ^ 32
     \<Longrightarrow> retries \<le> maxRetries \<Longrightarrow> n = maxRetries - retries \<Longrightarrow>
     \<exists>c'. request maxRetries net handler challenge retries c
            = (Inl (BrokenMessageError KeepsSendingChallenge), c')
        \<and> length (requests c') = length (requests c) + n + 1
        \<and> c_closed c' = (maxRetries = 0)
        \<and> sock_closed c' = (maxRetries = 0)
        \<and> udp_closes c' = udp_closes c + (if maxRetries = 0 then 1 else 0)"
proof (induction n arbitrary: challenge retries c)
  case 0
  obtain pkt where pkt: "serializeRequest handler challenge = Inr pkt"
    using ser "0.prems" by blast
  obtain ms rest where r: "net (requests c @ [pkt]) = Response ms (0x41 # rest)"
    using net by blast
  have eq: "retries = maxRetries" using "0.prems" by simp
  show ?case
    using "0.prems" eq
    by (simp add: challenge_step [of c handler challenge pkt net ms rest, OF "0.prems"(1,2) pkt r] Let_def close_def socket_close_def)
next
  case (Suc n)
  obtain pkt where pkt: "serializeRequest handler challenge = Inr pkt"
    using ser Suc.prems by blast
  obtain ms rest where r: "net (requests c @ [pkt]) = Response ms (0x41 # rest)"
    and len: "4 \<le> length rest"
    using net by blast
  let ?c1 = "c\<lparr>requests := requests c @ [pkt]\<rparr>"
  let ?ch = "uintLE (take 4 rest)"
  have lt: "retries < maxRetries" using Suc.prems by simp
  have step: "request maxRetries net handler challenge retries c
                = request maxRetries net handler ?ch (retries + 1) ?c1"
    using lt len by (simp add: challenge_step [of c handler challenge pkt net ms rest, OF Suc.prems(1,2) pkt r] Let_def)
  have l4: "length (take 4 rest) = 4" using len by simp
  have b: "0 \<le> ?ch" "?ch < 2 ^ 32"
    using uintLE_bounds [of "take 4 rest"] unfolding l4 by simp_all
  have "\<exists>c'. request maxRetries net handler ?ch (retries + 1) ?c1
            = (Inl (BrokenMessageError KeepsSendingChallenge), c')
        \<and> length (requests c') = length (requests ?c1) + n + 1
        \<and> c_closed c' = (maxRetries = 0)
        \<and> sock_closed c' = (maxRetries = 0)
        \<and> udp_closes c' = udp_closes ?c1 + (if maxRetries = 0 then 1 else 0)"
    using Suc.prems b lt by (intro Suc.IH) simp_all
  then show ?case unfolding step by simp
qed

lemma bytesLE_4: "bytesLE 4 v =
    [word_of_int v, word_of_int (v div 256), word_of_int (v div 256 div 256),
     word_of_int (v div 256 div 256 div 256)]"
  by (simp add: eval_nat_numeral)

lemma RulesProtocol_simps [simp]:
  "validateResponseType (RulesProtocol rt) t = (t = 0x45)"
  "0 \<le> ch \<Longrightarrow> ch < 2 ^ 32 \<Longrightarrow> serializeRequest (RulesProtocol rt) ch = Inr (0x56 # bytesLE 4 ch)"
  by (simp_all add: RulesProtocol_def A2S_RULES_RESPONSE_def buf_writeUInt_def)

text \<open>
  C1, as the code has it. The client is open, its socket too, and the server answers every
  request with a challenge response: the type byte \<open>0x41\<close> followed by at least the four
  bytes of the challenge. Then exactly \<open>maxRetries + 1\<close> requests go through the transport
  and the call fails with the \<^verbatim>\<open>BrokenMessageError\<close> for a server that keeps sending
  challenge responses. The handler is any whose request serialiser accepts every 32-bit
  challenge.
\<close>

theorem challenge_retry_bound:
  assumes "\<not> c_closed c" "\<not> sock_closed c"
    and "\<forall>h. \<exists>ms rest. net h = Response ms (0x41 # rest) \<and> 4 \<le> length rest"
    and "\<forall>ch. 0 \<le> ch \<and> ch < 2 ^ 32 \<longrightarrow> (\<exists>p. serializeRequest handler ch = Inr p)"
  shows "fst (request maxRetries net handler 0 0 c) = Inl (BrokenMessageError KeepsSendingChallenge)
       \<and> length (requests (snd (request maxRetries net handler 0 0 c)))
           = length (requests c) + (maxRetries + 1)"
  using challenge_loop [of net handler c 0 0 maxRetries maxRetries] assms by auto

theorem challenge_retry_bound_witness:
  "\<not> c_closed (A2SClient (Some ''utf-8'')) \<and> \<not> sock_closed (A2SClient (Some ''utf-8''))
   \<and> fst (request DEFAULT_RETRIES (\<lambda>h. Response 1 [0x41, 0x12, 0x34, 0x56, 0x78])
            (RulesProtocol latin1_rt) 0 0 (A2SClient (Some ''utf-8'')))
       = Inl (BrokenMessageError KeepsSendingChallenge)
   \<and> length (requests (snd (request DEFAULT_RETRIES (\<lambda>h. Response 1 [0x41, 0x12, 0x34, 0x56, 0x78])
            (RulesProtocol latin1_rt) 0 0 (A2SClient (Some ''utf-8''))))) = 6"
  using challenge_retry_bound [of "A2SClient (Some ''utf-8'')"
      "\<lambda>h. Response 1 [0x41, 0x12, 0x34, 0x56, 0x78]" "RulesProtocol latin1_rt" DEFAULT_RETRIES]
  by (simp add: A2SClient_def DEFAULT_RETRIES_def)

text \<open>
  A server that answers with the type byte alone: the rules query sends one request and
  fails with \<^verbatim>\<open>BufferExhaustedError\<close>, thrown by the read of the challenge.
\<close>

theorem truncated_challenge_counterexample:
  "rules latin1_rt DEFAULT_RETRIES (\<lambda>h. Response 1 [0x41]) (A2SClient (Some ''utf-8''))
     = (Inl BufferExhaustedError, (A2SClient (Some ''utf-8''))\<lparr>requests := [[0x56, 0, 0, 0, 0]]\<rparr>)"
  using challenge_step [of "A2SClient (Some ''utf-8'')" "RulesProtocol latin1_rt" 0
      "[0x56, 0, 0, 0, 0]" "\<lambda>h. Response 1 [0x41]" 1 "[]" DEFAULT_RETRIES 0]
  by (simp add: rules_def A2SClient_def DEFAULT_RETRIES_def Let_def bytesLE_4)

text \<open>
  C2, as the code has it. When the retry counter reaches the maximum, the client raises the
  \<^verbatim>\<open>BrokenMessageError\<close>; the call that raises it closes the transport only if it is the
  outermost call, that is if the maximum is 0. With a positive maximum, as the default 5,
  the error is raised inside the recursion and no call of the sequence closes anything: the
  client and the socket are left open and the UDP socket is closed zero times.
\<close>

theorem challenge_failure_close_count:
  assumes "\<not> c_closed c" "\<not> sock_closed c"
    and "\<forall>h. \<exists>ms rest. net h = Response ms (0x41 # rest) \<and> 4 \<le> length rest"
    and "\<forall>ch. 0 \<le> ch \<and> ch < 2 ^ 32 \<longrightarrow> (\<exists>p. serializeRequest handler ch = Inr p)"
  shows "fst (request maxRetries net handler 0 0 c) = Inl (BrokenMessageError KeepsSendingChallenge)
       \<and> c_closed (snd (request maxRetries net handler 0 0 c)) = (maxRetries = 0)
       \<and> sock_closed (snd (request maxRetries net handler 0 0 c)) = (maxRetries = 0)
       \<and> udp_closes (snd (request maxRetries net handler 0 0 c))
           = udp_closes c + (if maxRetries = 0 then 1 else 0)"
  using challenge_loop [of net handler c 0 0 maxRetries maxRetries] assms by auto

theorem challenge_failure_close_count_witness:
  "\<not> c_closed (A2SClient (Some ''utf-8'')) \<and> \<not> sock_closed (A2SClient (Some ''utf-8''))
   \<and> fst (request DEFAULT_RETRIES (\<lambda>h. Response 1 [0x41, 0x12, 0x34, 0x56, 0x78])
            (RulesProtocol latin1_rt) 0 0 (A2SClient (Some ''utf-8'')))
       = Inl (BrokenMessageError KeepsSendingChallenge)
   \<and> \<not> c_closed (snd (request DEFAULT_RETRIES (\<lambda>h. Response 1 [0x41, 0x12, 0x34, 0x56, 0x78])
            (RulesProtocol latin1_rt) 0 0 (A2SClient (Some ''utf-8''))))
   \<and> udp_closes (snd (request DEFAULT_RETRIES (\<lambda>h. Response 1 [0x41, 0x12, 0x34, 0x56, 0x78])
            (RulesProtocol latin1_rt) 0 0 (A2SClient (Some ''utf-8'')))) = 0"
  using challenge_failure_close_count [of "A2SClient (Some ''utf-8'')"
      "\<lambda>h. Response 1 [0x41, 0x12, 0x34, 0x56, 0x78]" "RulesProtocol latin1_rt" DEFAULT_RETRIES]
  by (simp add: A2SClient_def DEFAULT_RETRIES_def)

text \<open>
  With the default maximum, the rules query against a server that always sends a challenge
  fails and leaves the transport open: it is not closed once, but never.
\<close>

theorem challenge_failure_not_closed_counterexample:
  "fst (rules latin1_rt DEFAULT_RETRIES (\<lambda>h. Response 1 [0x41, 0x12, 0x34, 0x56, 0x78])
          (A2SClient (Some ''utf-8'')))
     = Inl (BrokenMessageError KeepsSendingChallenge)
   \<and> udp_closes (snd (rules latin1_rt DEFAULT_RETRIES
          (\<lambda>h. Response 1 [0x41, 0x12, 0x34, 0x56, 0x78]) (A2SClient (Some ''utf-8'')))) = 0
   \<and> c_closed (snd (rules latin1_rt DEFAULT_RETRIES
          (\<lambda>h. Response 1 [0x41, 0x12, 0x34, 0x56, 0x78]) (A2SClient (Some ''utf-8'')))) = False
   \<and> sock_closed (snd (rules latin1_rt DEFAULT_RETRIES
          (\<lambda>h. Response 1 [0x41, 0x12, 0x34, 0x56, 0x78]) (A2SClient (Some ''utf-8'')))) = False"
  using challenge_loop [of "\<lambda>h. Response 1 [0x41, 0x12, 0x34, 0x56, 0x78]"
      "RulesProtocol latin1_rt" "A2SClient (Some ''utf-8'')" 0 0 DEFAULT_RETRIES DEFAULT_RETRIES]
  by (auto simp: rules_def A2SClient_def DEFAULT_RETRIES_def)

end
